theory Spec2Isabelle
  imports Complex_Main "HOL-Library.Sublist"
begin

section \<open>JavaScript values used by src/lib/blockchain.ts\<close>

text \<open>
  Strings are \<open>string\<close>: lists of 8-bit characters, read as the code units \<open>U+0000\<close> to
  \<open>U+00FF\<close> (addresses, hashes, amounts and timestamps of the ledger API are ASCII). In
  that range the white space that \<open>parseInt\<close> and \<open>BigInt\<close> skip is tab, line feed,
  vertical tab, form feed, carriage return, space and the no-break space \<open>U+00A0\<close>, and
  \<open>toLowerCase\<close> acts on the letters A-Z and on \<open>U+00C0\<close> to \<open>U+00DE\<close> except the
  multiplication sign \<open>U+00D7\<close>. A field of a JSON object that is absent (\<open>undefined\<close>)
  is \<open>None\<close>.

  A JavaScript number that comes out of \<open>parseInt\<close> is \<open>NaN\<close> or an integer; the
  model keeps the integer exactly (JavaScript rounds magnitudes above \<open>2^53\<close> to the
  nearest double, and does not distinguish \<open>-0\<close> in any comparison made here).
\<close>

datatype number = NaN | Num int

fun js_lt :: "number \<Rightarrow> number \<Rightarrow> bool" where
  "js_lt (Num a) (Num b) = (a < b)"
| "js_lt _ _ = False"

fun js_ge :: "number \<Rightarrow> number \<Rightarrow> bool" where
  "js_ge (Num a) (Num b) = (a \<ge> b)"
| "js_ge _ _ = False"

fun js_times :: "number \<Rightarrow> int \<Rightarrow> number" where
  "js_times (Num a) k = Num (a * k)"
| "js_times NaN k = NaN"

definition isWhiteSpace :: "char \<Rightarrow> bool" where
  "isWhiteSpace c = (let n = (of_char c :: nat) in (9 \<le> n \<and> n \<le> 13) \<or> n = 32 \<or> n = 160)"

definition lowerChar :: "char \<Rightarrow> char" where
  "lowerChar c = (let n = (of_char c :: nat) in
     if (65 \<le> n \<and> n \<le> 90) \<or> (192 \<le> n \<and> n \<le> 222 \<and> n \<noteq> 215) then char_of (n + 32) else c)"

definition toLowerCase :: "string \<Rightarrow> string" where
  "toLowerCase s = map lowerChar s"

text \<open>The value of a character as a digit (0-9, a-z, A-Z), as \<open>parseInt\<close> and the
  \<open>BigInt\<close> constructor read it; the radix decides which digits count.\<close>

definition digitValue :: "char \<Rightarrow> nat option" where
  "digitValue c = (let n = (of_char c :: nat) in
     if 48 \<le> n \<and> n \<le> 57 then Some (n - 48)
     else if 97 \<le> n \<and> n \<le> 122 then Some (n - 87)
     else if 65 \<le> n \<and> n \<le> 90 then Some (n - 55)
     else None)"

fun digitsPrefix :: "nat \<Rightarrow> string \<Rightarrow> nat list" where
  "digitsPrefix R [] = []"
| "digitsPrefix R (c # cs) =
     (case digitValue c of
        None \<Rightarrow> []
      | Some d \<Rightarrow> if d < R then d # digitsPrefix R cs else [])"

definition digitsToInt :: "nat \<Rightarrow> nat list \<Rightarrow> int" where
  "digitsToInt R ds = foldl (\<lambda>acc d. acc * int R + int d) 0 ds"

text \<open>\<open>parseInt(string)\<close> with no radix argument: leading white space is skipped, a sign
  is read, a \<open>0x\<close>/\<open>0X\<close> prefix selects radix 16, the longest prefix of digits is
  converted and the rest of the string is ignored; no digit at all gives \<open>NaN\<close>.\<close>

definition parseIntString :: "string \<Rightarrow> number" where
  "parseIntString s =
     (let S = dropWhile isWhiteSpace s;
          neg = (case S of c # _ \<Rightarrow> c = CHR ''-'' | [] \<Rightarrow> False);
          S1 = (case S of c # cs \<Rightarrow> if c = CHR ''-'' \<or> c = CHR ''+'' then cs else S | [] \<Rightarrow> S);
          hex = (case S1 of a # b # _ \<Rightarrow> a = CHR ''0'' \<and> (b = CHR ''x'' \<or> b = CHR ''X'') | _ \<Rightarrow> False);
          R = (if hex then 16 else 10);
          Z = digitsPrefix R (if hex then drop 2 S1 else S1)
      in if Z = [] then NaN
         else Num ((if neg then - 1 else 1) * digitsToInt R Z))"

text \<open>\<open>parseInt(x)\<close> for a field that may be absent: \<open>undefined\<close> is converted to the
  string "undefined", which has no digit.\<close>

fun parseInt :: "string option \<Rightarrow> number" where
  "parseInt None = NaN"
| "parseInt (Some s) = parseIntString s"

text \<open>\<open>BigInt(string)\<close>: the string is trimmed; the empty string is \<open>0n\<close>; a decimal
  literal may carry a sign; \<open>0x\<close>, \<open>0o\<close> and \<open>0b\<close> literals carry none; anything else
  raises a SyntaxError (\<open>None\<close>).\<close>

definition trim :: "string \<Rightarrow> string" where
  "trim s = rev (dropWhile isWhiteSpace (rev (dropWhile isWhiteSpace s)))"

definition digitsAll :: "nat \<Rightarrow> string \<Rightarrow> int option" where
  "digitsAll R s =
     (let ds = digitsPrefix R s
      in if s \<noteq> [] \<and> length ds = length s then Some (digitsToInt R ds) else None)"

definition BigInt :: "string \<Rightarrow> int option" where
  "BigInt s =
     (let t = trim s in
      case t of
        [] \<Rightarrow> Some 0
      | [c] \<Rightarrow> digitsAll 10 t
      | a # b # rest \<Rightarrow>
          if a = CHR ''0'' \<and> (b = CHR ''x'' \<or> b = CHR ''X'') then digitsAll 16 rest
          else if a = CHR ''0'' \<and> (b = CHR ''o'' \<or> b = CHR ''O'') then digitsAll 8 rest
          else if a = CHR ''0'' \<and> (b = CHR ''b'' \<or> b = CHR ''B'') then digitsAll 2 rest
          else if a = CHR ''+'' then digitsAll 10 (b # rest)
          else if a = CHR ''-'' then map_option uminus (digitsAll 10 (b # rest))
          else digitsAll 10 t)"

text \<open>Truthiness of a string field: \<open>undefined\<close> and the empty string are falsy.\<close>

fun truthy :: "string option \<Rightarrow> bool" where
  "truthy None = False"
| "truthy (Some s) = (s \<noteq> [])"

section \<open>Data model\<close>

text \<open>A raw record of the upstream result list: every field is a string or absent.\<close>

record raw =
  raw_hash :: "string option"
  raw_timeStamp :: "string option"
  raw_value :: "string option"
  raw_from :: "string option"
  raw_to :: "string option"
  raw_contractAddress :: "string option"
  raw_tokenSymbol :: "string option"
  raw_tokenDecimal :: "string option"
  raw_blockNumber :: "string option"

text \<open>The normalized Transaction built by the two \<open>.map\<close> callbacks.\<close>

record transaction =
  tx_hash :: "string option"
  tx_timestamp :: number
  tx_value :: "string option"
  tx_tokenSymbol :: "string option"
  tx_tokenDecimal :: number
  tx_from :: "string option"
  tx_to :: "string option"
  tx_network :: string
  tx_blockNumber :: number

text \<open>The JSON envelope of the upstream API. \<open>env_status\<close> and \<open>env_message\<close> are
  \<open>Some s\<close> when the field is the string \<open>s\<close>; \<open>env_result\<close> is an array of records
  or something else.\<close>

datatype result_field = ResultArray "raw list" | ResultOther

record envelope =
  env_status :: "string option"
  env_message :: "string option"
  env_result :: result_field

datatype error =
    MissingApiKey
  | NetworkError
  | HttpError nat string
  | JsonError
  | TypeError
  | EtherscanApiError envelope
  | SyntaxError string

section \<open>Constants\<close>

definition GONDI_CONTRACT :: string where
  "GONDI_CONTRACT = ''0x4169447a424ec645f8a24dccfd8328f714dd5562''"

definition USDC_CONTRACT :: string where
  "USDC_CONTRACT = ''0xA0b86991c6218b36c1d19D4a2e9Eb0cE3606eB48''"

definition WETH_CONTRACT :: string where
  "WETH_CONTRACT = ''0xc02aaa39b223fe8d0a0e5c4f27ead9083c756cc2''"

text \<open>\<open>new Date('2025-10-22T00:00:00Z').getTime()\<close>: milliseconds since the epoch. The
  day number is computed from the civil date (proleptic Gregorian calendar).\<close>

definition daysFromCivil :: "int \<Rightarrow> int \<Rightarrow> int \<Rightarrow> int" where
  "daysFromCivil y m d =
     (let y' = (if m \<le> 2 then y - 1 else y);
          era = y' div 400;
          yoe = y' - era * 400;
          doy = (153 * (if m > 2 then m - 3 else m + 9) + 2) div 5 + d - 1;
          doe = yoe * 365 + yoe div 4 - yoe div 100 + doy
      in era * 146097 + doe - 719468)"

definition START_DATE :: int where
  "START_DATE = daysFromCivil 2025 10 22 * 86400000"

definition START_TIMESTAMP :: int where
  "START_TIMESTAMP = START_DATE div 1000"

definition CACHE_DURATION :: int where
  "CACHE_DURATION = 30 * 60 * 1000"

section \<open>Transaction Normalizer\<close>

text \<open>\<open>Array.prototype.filter\<close> with a callback that may raise: the callback runs on
  the elements in order and the first exception aborts the whole filter.\<close>

fun js_filter :: "('a \<Rightarrow> error + bool) \<Rightarrow> 'a list \<Rightarrow> error + 'a list" where
  "js_filter p [] = Inr []"
| "js_filter p (x # xs) =
     (case p x of
        Inl e \<Rightarrow> Inl e
      | Inr b \<Rightarrow>
          (case js_filter p xs of
             Inl e \<Rightarrow> Inl e
           | Inr ys \<Rightarrow> Inr (if b then x # ys else ys)))"

text \<open>The callback of the token-transfer filter (lines 154-169, repeated at 196-204).\<close>

definition tokenFilter :: "raw \<Rightarrow> error + bool" where
  "tokenFilter tx =
     (if js_lt (parseInt (raw_timeStamp tx)) (Num START_TIMESTAMP) then Inr False
      else if map_option toLowerCase (raw_to tx) \<noteq> Some (toLowerCase GONDI_CONTRACT) then Inr False
      else (case raw_value tx of
              None \<Rightarrow> Inr False
            | Some v \<Rightarrow>
                if v = [] then Inr False
                else (case BigInt v of
                        None \<Rightarrow> Inl (SyntaxError v)
                      | Some n \<Rightarrow>
                          if n \<le> 0 then Inr False
                          else let contractAddress = map_option toLowerCase (raw_contractAddress tx)
                               in Inr (contractAddress = Some (toLowerCase USDC_CONTRACT) \<or>
                                       contractAddress = Some (toLowerCase WETH_CONTRACT)))))"

text \<open>The callback of the internal-transfer filter (lines 227-237); its result is used
  for its truthiness.\<close>

definition internalFilter :: "raw \<Rightarrow> error + bool" where
  "internalFilter tx =
     (if js_lt (parseInt (raw_timeStamp tx)) (Num START_TIMESTAMP) then Inr False
      else if map_option toLowerCase (raw_to tx) \<noteq> Some (toLowerCase GONDI_CONTRACT) then Inr False
      else (case raw_value tx of
              None \<Rightarrow> Inr False
            | Some v \<Rightarrow>
                if v = [] then Inr False
                else (case BigInt v of
                        None \<Rightarrow> Inl (SyntaxError v)
                      | Some n \<Rightarrow> Inr (n > 0))))"

definition or_default :: "string option \<Rightarrow> string \<Rightarrow> string option" where
  "or_default x d = (if truthy x then x else Some d)"

definition normalizeToken :: "raw \<Rightarrow> transaction" where
  "normalizeToken tx =
     \<lparr> tx_hash = raw_hash tx,
       tx_timestamp = js_times (parseInt (raw_timeStamp tx)) 1000,
       tx_value = raw_value tx,
       tx_tokenSymbol = (if raw_tokenSymbol tx = Some ''WETHEREUM'' then Some ''WETH''
                         else raw_tokenSymbol tx),
       tx_tokenDecimal = parseInt (or_default (raw_tokenDecimal tx) ''18''),
       tx_from = raw_from tx,
       tx_to = raw_to tx,
       tx_network = ''ethereum'',
       tx_blockNumber = parseInt (raw_blockNumber tx) \<rparr>"

definition normalizeInternal :: "raw \<Rightarrow> transaction" where
  "normalizeInternal tx =
     \<lparr> tx_hash = raw_hash tx,
       tx_timestamp = js_times (parseInt (raw_timeStamp tx)) 1000,
       tx_value = raw_value tx,
       tx_tokenSymbol = Some ''ETH'',
       tx_tokenDecimal = Num 18,
       tx_from = raw_from tx,
       tx_to = raw_to tx,
       tx_network = ''ethereum'',
       tx_blockNumber = parseInt (or_default (raw_blockNumber tx) ''0'') \<rparr>"

definition processTokens :: "raw list \<Rightarrow> error + transaction list" where
  "processTokens raws =
     (case js_filter tokenFilter raws of
        Inl e \<Rightarrow> Inl e
      | Inr kept \<Rightarrow> Inr (map normalizeToken kept))"

definition processInternal :: "raw list \<Rightarrow> error + transaction list" where
  "processInternal raws =
     (case js_filter internalFilter raws of
        Inl e \<Rightarrow> Inl e
      | Inr kept \<Rightarrow> Inr (map normalizeInternal kept))"

section \<open>Deduplication\<close>

text \<open>\<open>Array.prototype.findIndex\<close>: the index of the first element satisfying the
  predicate, \<open>-1\<close> when there is none.\<close>

fun findIndex :: "('a \<Rightarrow> bool) \<Rightarrow> 'a list \<Rightarrow> int" where
  "findIndex p [] = - 1"
| "findIndex p (x # xs) =
     (if p x then 0
      else let r = findIndex p xs in if r < 0 then - 1 else r + 1)"

definition sameEvent :: "transaction \<Rightarrow> transaction \<Rightarrow> bool" where
  "sameEvent tx t = (tx_hash t = tx_hash tx \<and> tx_value t = tx_value tx)"

text \<open>The pair that the callback of \<open>findIndex\<close> compares.\<close>

definition eventKey :: "transaction \<Rightarrow> string option \<times> string option" where
  "eventKey t = (tx_hash t, tx_value t)"

text \<open>Lines 259-261: an element is kept when it stands at the index of the first element
  with its hash and value.\<close>

definition uniqueTransactions :: "transaction list \<Rightarrow> transaction list" where
  "uniqueTransactions transactions =
     map snd (filter (\<lambda>(index, tx). findIndex (sameEvent tx) transactions = int index)
                     (enumerate 0 transactions))"

section \<open>Value Parser\<close>

text \<open>
  The value \<open>parseTransactionValue\<close> returns is an IEEE-754 binary64 number. A double is
  a finite real, an infinity or \<open>NaN\<close> (the sign of zero is not distinguished: no
  operation of the function depends on it). \<open>round53\<close> rounds a real to the nearest
  number with a 53-bit significand, ties to the even significand, with the exponent range
  of binary64 (below \<open>2^-1022\<close> the spacing stays \<open>2^-1074\<close>); \<open>toDouble\<close> adds the
  overflow to infinity.
\<close>

definition roundTiesToEven :: "real \<Rightarrow> int" where
  "roundTiesToEven q =
     (let f = \<lfloor>q\<rfloor> in
      if q - of_int f < 1 / 2 then f
      else if q - of_int f > 1 / 2 then f + 1
      else if even f then f else f + 1)"

definition round53 :: "real \<Rightarrow> real" where
  "round53 x =
     (if x = 0 then 0
      else let e = max (\<lfloor>log 2 \<bar>x\<bar>\<rfloor> - 52) (- 1074)
           in of_int (roundTiesToEven (x / 2 powr of_int e)) * 2 powr of_int e)"

datatype double = Finite real | PlusInfinity | MinusInfinity | NotANumber

definition toDouble :: "real \<Rightarrow> double" where
  "toDouble x =
     (let y = round53 x in
      if 2 ^ 1024 \<le> y then PlusInfinity
      else if y \<le> - (2 ^ 1024) then MinusInfinity
      else Finite y)"

text \<open>\<open>+\<close> and \<open>/\<close> on doubles.\<close>

fun fadd :: "double \<Rightarrow> double \<Rightarrow> double" where
  "fadd (Finite a) (Finite b) = toDouble (a + b)"
| "fadd NotANumber _ = NotANumber"
| "fadd _ NotANumber = NotANumber"
| "fadd PlusInfinity MinusInfinity = NotANumber"
| "fadd MinusInfinity PlusInfinity = NotANumber"
| "fadd PlusInfinity _ = PlusInfinity"
| "fadd MinusInfinity _ = MinusInfinity"
| "fadd _ PlusInfinity = PlusInfinity"
| "fadd _ MinusInfinity = MinusInfinity"

fun fdiv :: "double \<Rightarrow> double \<Rightarrow> double" where
  "fdiv (Finite a) (Finite b) =
     (if b = 0 then (if a = 0 then NotANumber else if 0 < a then PlusInfinity else MinusInfinity)
      else toDouble (a / b))"
| "fdiv NotANumber _ = NotANumber"
| "fdiv _ NotANumber = NotANumber"
| "fdiv (Finite a) _ = Finite 0"
| "fdiv PlusInfinity (Finite b) = (if 0 \<le> b then PlusInfinity else MinusInfinity)"
| "fdiv MinusInfinity (Finite b) = (if 0 \<le> b then MinusInfinity else PlusInfinity)"
| "fdiv _ _ = NotANumber"

text \<open>The least real that rounds to infinity (halfway between the largest double and
  \<open>2^1024\<close>), and the largest double.\<close>

definition overflowThreshold :: real where
  "overflowThreshold = 2 ^ 1024 - 2 ^ 970"

definition maxDouble :: real where
  "maxDouble = 2 ^ 1024 - 2 ^ 971"

text \<open>\<open>10 ** decimals\<close> for an integer \<open>decimals\<close>. The language leaves the result of
  \<open>**\<close> implementation-approximated, so \<open>parseTransactionValue\<close> below takes the
  engine's power of ten as its parameter \<open>pow10\<close>. \<open>js_pow10\<close> is the correctly rounded
  power: the exact power where that is a double (\<open>0 \<le> decimals \<le> 22\<close>), a double in
  \<open>[0, 1)\<close> for a negative \<open>decimals\<close>, and infinity from \<open>decimals = 309\<close> on.\<close>

definition js_pow10 :: "int \<Rightarrow> double" where
  "js_pow10 decimals = toDouble (10 powr of_int decimals)"

text \<open>\<open>BigInt(number)\<close>: a RangeError (\<open>None\<close>) unless the number is an integer.\<close>

definition BigInt_of_number :: "double \<Rightarrow> int option" where
  "BigInt_of_number x =
     (case x of
        Finite y \<Rightarrow> if of_int \<lfloor>y\<rfloor> = y then Some \<lfloor>y\<rfloor> else None
      | _ \<Rightarrow> None)"

text \<open>\<open>Number(bigint)\<close>: the nearest double.\<close>

definition Number_of_BigInt :: "int \<Rightarrow> double" where
  "Number_of_BigInt n = toDouble (of_int n)"

text \<open>\<open>/\<close> and \<open>%\<close> on BigInt: the quotient is truncated towards zero and the remainder
  has the sign of the dividend; a zero divisor raises a RangeError, which the caller tests
  first.\<close>

definition bigint_div :: "int \<Rightarrow> int \<Rightarrow> int" where
  "bigint_div a b = sgn a * sgn b * (\<bar>a\<bar> div \<bar>b\<bar>)"

definition bigint_rem :: "int \<Rightarrow> int \<Rightarrow> int" where
  "bigint_rem a b = a - b * bigint_div a b"

text \<open>Lines 31-42, with the engine's \<open>10 ** decimals\<close> as the parameter \<open>pow10\<close>.
  Every exception of the \<open>try\<close> block (the SyntaxError of \<open>BigInt(value)\<close>, the
  RangeError of \<open>BigInt(10 ** decimals)\<close> for a power that is not an integer, the
  RangeError of a division by \<open>0n\<close>) is caught and the function returns \<open>0\<close>. The
  parameter \<open>decimals\<close> defaults to 18.\<close>

definition parseTransactionValue :: "(int \<Rightarrow> double) \<Rightarrow> string \<Rightarrow> int \<Rightarrow> double" where
  "parseTransactionValue pow10 value decimals =
     (case BigInt value of
        None \<Rightarrow> Finite 0
      | Some bigIntValue \<Rightarrow>
          (case BigInt_of_number (pow10 decimals) of
             None \<Rightarrow> Finite 0
           | Some divisor \<Rightarrow>
               if divisor = 0 then Finite 0
               else let quotient = bigint_div bigIntValue divisor;
                        remainder = bigint_rem bigIntValue divisor
                    in fadd (Number_of_BigInt quotient)
                            (fdiv (Number_of_BigInt remainder) (Number_of_BigInt divisor))))"

section \<open>Resilient Fetcher\<close>

text \<open>What one \<open>fetch(url)\<close> followed by \<open>response.json()\<close> can give: the fetch rejects, or
  a response arrives with its status code, status text and body; the body is not JSON
  (\<open>response.json()\<close> rejects), is \<open>null\<close>, or is an object read as an envelope
  (another JSON value has none of the three fields and behaves as the envelope without
  them).\<close>

datatype body = BodyInvalid | BodyNull | BodyObject envelope

datatype fetch_outcome = FetchRejected | HttpResponse nat string body

text \<open>The upstream service: its answer to the \<open>k\<close>-th request of the process, and the
  time in milliseconds that request takes.\<close>

record upstream =
  respond :: "nat \<Rightarrow> string \<Rightarrow> fetch_outcome"
  latency :: "nat \<Rightarrow> nat"

text \<open>The state the module touches: the process-wide \<open>API_CACHE\<close>, the clock read by
  \<open>Date.now()\<close>, the requests issued so far and the delays waited so far.\<close>

record world =
  API_CACHE :: "string \<rightharpoonup> raw list \<times> int"
  now :: int
  requests :: "string list"
  sleeps :: "int list"

definition getCachedData :: "string \<Rightarrow> world \<Rightarrow> raw list option" where
  "getCachedData url w =
     (case API_CACHE w url of
        None \<Rightarrow> None
      | Some (data, timestamp) \<Rightarrow>
          if now w - timestamp < CACHE_DURATION then Some data else None)"

definition setCachedData :: "string \<Rightarrow> raw list \<Rightarrow> world \<Rightarrow> world" where
  "setCachedData url data w = w\<lparr>API_CACHE := (API_CACHE w)(url \<mapsto> (data, now w))\<rparr>"

text \<open>\<open>await new Promise(resolve => setTimeout(resolve, delay))\<close>.\<close>

definition sleep :: "int \<Rightarrow> world \<Rightarrow> world" where
  "sleep delay w = w\<lparr>now := now w + delay, sleeps := sleeps w @ [delay]\<rparr>"

text \<open>The body of the \<open>try\<close> block of one attempt (lines 61-81), given what the request
  gave: it raises, returns the empty list on "No transactions found", or returns the
  result list, which is then cached.\<close>

datatype attempt_result = NoTransactions | Results "raw list"

definition response_ok :: "nat \<Rightarrow> bool" where
  "response_ok status = (200 \<le> status \<and> status \<le> 299)"

fun attempt :: "fetch_outcome \<Rightarrow> error + attempt_result" where
  "attempt FetchRejected = Inl NetworkError"
| "attempt (HttpResponse status statusText b) =
     (if \<not> response_ok status then Inl (HttpError status statusText)
      else (case b of
              BodyInvalid \<Rightarrow> Inl JsonError
            | BodyNull \<Rightarrow> Inl TypeError
            | BodyObject data \<Rightarrow>
                if env_status data = Some ''0'' then
                  (if env_message data = Some ''No transactions found'' then Inr NoTransactions
                   else Inl (EtherscanApiError data))
                else Inr (Results (case env_result data of
                                     ResultArray results \<Rightarrow> results
                                   | ResultOther \<Rightarrow> []))))"

definition backoff :: "nat \<Rightarrow> int" where
  "backoff i = min 5000 (1000 * 2 ^ i)"

text \<open>The \<open>for\<close> loop of \<open>fetchWithRetry\<close> from attempt index \<open>i\<close> on.\<close>

function fetchLoop :: "upstream \<Rightarrow> string \<Rightarrow> nat \<Rightarrow> nat \<Rightarrow> world \<Rightarrow> (error + raw list) \<times> world" where
  "fetchLoop up url retries i w =
     (if i < retries then
        (let k = length (requests w);
             w1 = w\<lparr>now := now w + int (latency up k), requests := requests w @ [url]\<rparr>
         in (case attempt (respond up k url) of
               Inr NoTransactions \<Rightarrow> (Inr [], w1)
             | Inr (Results results) \<Rightarrow> (Inr results, setCachedData url results w1)
             | Inl e \<Rightarrow>
                 if Suc i = retries then (Inl e, w1)
                 else fetchLoop up url retries (Suc i) (sleep (backoff i) w1)))
      else (Inr [], w))"
  by pat_completeness auto
termination
  by (relation "measure (\<lambda>(up, url, retries, i, w). retries - i)") auto

declare fetchLoop.simps [simp del]

definition fetchWithRetry :: "upstream \<Rightarrow> string \<Rightarrow> nat \<Rightarrow> world \<Rightarrow> (error + raw list) \<times> world" where
  "fetchWithRetry up url retries w =
     (case getCachedData url w of
        Some cachedData \<Rightarrow> (Inr cachedData, w)
      | None \<Rightarrow> fetchLoop up url retries 0 w)"

text \<open>The default of the parameter \<open>retries\<close>.\<close>

definition DEFAULT_RETRIES :: nat where
  "DEFAULT_RETRIES = 3"

section \<open>Ingestion Orchestrator\<close>

definition baseParams :: "string \<Rightarrow> string" where
  "baseParams apikey = ''startblock=0&endblock=99999999&sort=asc&apikey='' @ apikey"

definition tokenUrl :: "string \<Rightarrow> string" where
  "tokenUrl apikey =
     ''https://api.etherscan.io/v2/api?chainid=1&module=account&action=tokentx&address=''
       @ GONDI_CONTRACT @ ''&'' @ baseParams apikey"

definition internalUrl :: "string \<Rightarrow> string" where
  "internalUrl apikey =
     ''https://api.etherscan.io/v2/api?chainid=1&module=account&action=txlistinternal&address=''
       @ GONDI_CONTRACT @ ''&'' @ baseParams apikey"

text \<open>The token branch (lines 152-222): the settled first fetch is processed, and an
  exception of its filter is not caught here; a rejected first fetch leads to the direct
  retry, whose own \<open>try\<close>/\<open>catch\<close> swallows every exception.\<close>

definition tokenBranch ::
  "upstream \<Rightarrow> string \<Rightarrow> error + raw list \<Rightarrow> world \<Rightarrow> (error + transaction list) \<times> world" where
  "tokenBranch up url tokenResults w =
     (case tokenResults of
        Inr raws \<Rightarrow> (processTokens raws, w)
      | Inl reason \<Rightarrow>
          (case fetchWithRetry up url DEFAULT_RETRIES w of
             (Inl retryError, w') \<Rightarrow> (Inr [], w')
           | (Inr retryTokens, w') \<Rightarrow>
               (case processTokens retryTokens of
                  Inl retryError \<Rightarrow> (Inr [], w')
                | Inr retryProcessed \<Rightarrow> (Inr retryProcessed, w'))))"

text \<open>The internal branch (lines 225-254), appending to the transactions so far.\<close>

definition internalBranch :: "error + raw list \<Rightarrow> transaction list \<Rightarrow> error + transaction list" where
  "internalBranch internalResults transactions =
     (case internalResults of
        Inr raws \<Rightarrow>
          (case processInternal raws of
             Inl e \<Rightarrow> Inl e
           | Inr ethInternal \<Rightarrow> Inr (transactions @ ethInternal))
      | Inl reason \<Rightarrow> Inr transactions)"

text \<open>The body of the outer \<open>try\<close> block of \<open>fetchEthereumTransactions\<close> (lines 103-284).
  \<open>ETHERSCAN_API_KEY\<close> is \<open>process.env.ETHERSCAN_API_KEY\<close>: \<open>None\<close> when unset.\<close>

definition fetchEthereumTransactions_try ::
  "string option \<Rightarrow> upstream \<Rightarrow> world \<Rightarrow> (error + transaction list) \<times> world" where
  "fetchEthereumTransactions_try ETHERSCAN_API_KEY up w =
     (case ETHERSCAN_API_KEY of
        None \<Rightarrow> (Inl MissingApiKey, w)
      | Some apikey \<Rightarrow>
          if apikey = [] then (Inl MissingApiKey, w)
          else
            (let (tokenResults, w1) = fetchWithRetry up (tokenUrl apikey) DEFAULT_RETRIES w;
                 w2 = sleep 1000 w1;
                 (internalResults, w3) = fetchWithRetry up (internalUrl apikey) DEFAULT_RETRIES w2;
                 (tokens, w4) = tokenBranch up (tokenUrl apikey) tokenResults w3
             in (case tokens of
                   Inl e \<Rightarrow> (Inl e, w4)
                 | Inr transactions \<Rightarrow>
                     (case internalBranch internalResults transactions of
                        Inl e \<Rightarrow> (Inl e, w4)
                      | Inr transactions' \<Rightarrow> (Inr (uniqueTransactions transactions'), w4)))))"

text \<open>\<open>fetchEthereumTransactions\<close>: the outer \<open>catch\<close> (lines 286-289) turns every
  exception of the body into the empty list.\<close>

definition fetchEthereumTransactions ::
  "string option \<Rightarrow> upstream \<Rightarrow> world \<Rightarrow> (error + transaction list) \<times> world" where
  "fetchEthereumTransactions ETHERSCAN_API_KEY up w =
     (case fetchEthereumTransactions_try ETHERSCAN_API_KEY up w of
        (Inl error, w') \<Rightarrow> (Inr [], w')
      | (Inr uniqueTxs, w') \<Rightarrow> (Inr uniqueTxs, w'))"

section \<open>Concrete inputs\<close>

text \<open>A fresh process: empty cache, clock at 0, nothing requested, nothing waited.\<close>

definition world0 :: world where
  "world0 = \<lparr>API_CACHE = Map.empty, now = 0, requests = [], sleeps = []\<rparr>"

text \<open>An upstream that answers every request with HTTP 429.\<close>

definition upstream_429 :: upstream where
  "upstream_429 =
     \<lparr>respond = (\<lambda>k url. HttpResponse 429 ''Too Many Requests'' BodyInvalid),
      latency = (\<lambda>k. 0)\<rparr>"

text \<open>An upstream that answers every request with an empty, successful result list.\<close>

definition upstream_empty :: upstream where
  "upstream_empty =
     \<lparr>respond = (\<lambda>k url. HttpResponse 200 ''OK''
          (BodyObject \<lparr>env_status = Some ''1'', env_message = Some ''OK'',
                       env_result = ResultArray []\<rparr>)),
      latency = (\<lambda>k. 0)\<rparr>"

text \<open>An upstream that answers every request with "No transactions found".\<close>

definition upstream_none :: upstream where
  "upstream_none =
     \<lparr>respond = (\<lambda>k url. HttpResponse 200 ''OK''
          (BodyObject \<lparr>env_status = Some ''0'', env_message = Some ''No transactions found'',
                       env_result = ResultArray []\<rparr>)),
      latency = (\<lambda>k. 0)\<rparr>"

text \<open>A USDC transfer to the tracked contract at the cutoff instant, and the same
  transfer of a token that is not allow-listed.\<close>

definition usdc_record :: raw where
  "usdc_record = \<lparr> raw_hash = Some ''0x01'', raw_timeStamp = Some ''1761091200'',
     raw_value = Some ''1000000'', raw_from = Some ''0x00'',
     raw_to = Some ''0x4169447A424EC645F8A24DCCFD8328F714DD5562'',
     raw_contractAddress = Some ''0xa0b86991c6218b36c1d19d4a2e9eb0ce3606eb48'',
     raw_tokenSymbol = Some ''USDC'', raw_tokenDecimal = Some ''6'',
     raw_blockNumber = Some ''23600000'' \<rparr>"

definition usdt_record :: raw where
  "usdt_record = usdc_record\<lparr>raw_hash := Some ''0x02'',
     raw_contractAddress := Some ''0xdac17f958d2ee523a2206206994597c13d831ec7'',
     raw_tokenSymbol := Some ''USDT''\<rparr>"

text \<open>An internal transfer to the tracked contract whose value is not an integer
  string.\<close>

definition bad_value_record :: raw where
  "bad_value_record = \<lparr> raw_hash = Some ''0x03'', raw_timeStamp = Some ''1761091300'',
     raw_value = Some ''abc'', raw_from = Some ''0x00'',
     raw_to = Some ''0x4169447a424ec645f8a24dccfd8328f714dd5562'',
     raw_contractAddress = None, raw_tokenSymbol = None, raw_tokenDecimal = None,
     raw_blockNumber = Some ''23600001'' \<rparr>"

text \<open>A successful response carrying a result list.\<close>

definition ok_body :: "raw list \<Rightarrow> fetch_outcome" where
  "ok_body raws = HttpResponse 200 ''OK''
     (BodyObject \<lparr>env_status = Some ''1'', env_message = Some ''OK'', env_result = ResultArray raws\<rparr>)"

text \<open>The first request (token transfers) is answered with one good USDC record, the
  second (internal transfers) with one record whose value is not an integer string.\<close>

definition upstream_malformed :: upstream where
  "upstream_malformed =
     \<lparr>respond = (\<lambda>k url. if k = 0 then ok_body [usdc_record] else ok_body [bad_value_record]),
      latency = (\<lambda>k. 0)\<rparr>"

text \<open>A token transfer and an internal transfer that share hash "0xabc" and value
  "500", and an upstream that delivers one in each category.\<close>

definition dup_token_record :: raw where
  "dup_token_record = usdc_record\<lparr>raw_hash := Some ''0xabc'', raw_value := Some ''500''\<rparr>"

definition dup_internal_record :: raw where
  "dup_internal_record = \<lparr> raw_hash = Some ''0xabc'', raw_timeStamp = Some ''1761091300'',
     raw_value = Some ''500'', raw_from = Some ''0x00'',
     raw_to = Some ''0x4169447a424ec645f8a24dccfd8328f714dd5562'',
     raw_contractAddress = None, raw_tokenSymbol = None, raw_tokenDecimal = None,
     raw_blockNumber = Some ''23600001'' \<rparr>"

definition upstream_duplicate :: upstream where
  "upstream_duplicate =
     \<lparr>respond = (\<lambda>k url. if k = 0 then ok_body [dup_token_record] else ok_body [dup_internal_record]),
      latency = (\<lambda>k. 0)\<rparr>"

text \<open>A token transfer to the tracked contract one second before the cutoff whose value
  is not an integer string, and an upstream that delivers it after a good USDC record in
  the token category and a good record in the internal category.\<close>

definition old_bad_record :: raw where
  "old_bad_record = usdc_record\<lparr>raw_hash := Some ''0x05'', raw_timeStamp := Some ''1761091199'',
     raw_value := Some ''abc''\<rparr>"

definition upstream_old_malformed :: upstream where
  "upstream_old_malformed =
     \<lparr>respond = (\<lambda>k url. if k = 0 then ok_body [usdc_record, old_bad_record]
                          else ok_body [dup_internal_record]),
      latency = (\<lambda>k. 0)\<rparr>"

text \<open>An upstream that rejects the three attempts of the first token request, answers
  the internal request (the fourth request) with a good record and the direct retry of
  the token request (the fifth) with a record whose value is not an integer string.\<close>

definition upstream_retry_malformed :: upstream where
  "upstream_retry_malformed =
     \<lparr>respond = (\<lambda>k url. if k = 3 then ok_body [dup_internal_record]
                          else if k = 4 then ok_body [bad_value_record]
                          else HttpResponse 429 ''Too Many Requests'' BodyInvalid),
      latency = (\<lambda>k. 0)\<rparr>"



text \<open>A USDC transfer to the tracked contract whose \<open>timeStamp\<close> field is absent, and an
  upstream that delivers it in the token category (the internal category is empty).\<close>

definition no_timestamp_record :: raw where
  "no_timestamp_record = usdc_record\<lparr>raw_hash := Some ''0x04'', raw_timeStamp := None\<rparr>"

definition upstream_no_timestamp :: upstream where
  "upstream_no_timestamp =
     \<lparr>respond = (\<lambda>k url. if k = 0 then ok_body [no_timestamp_record] else ok_body []),
      latency = (\<lambda>k. 0)\<rparr>"

text \<open>The decimal digits of \<open>2^1024 - 2^970\<close>, the least integer that \<open>Number\<close> converts
  to infinity, and the decimal digits of \<open>10^309\<close>.\<close>

definition threshold_digits :: string where
  "threshold_digits = ''179769313486231580793728971405303415079934132710037826936173778980444968292764750946649017977587207096330286416692887910946555547851940402630657488671505820681908902000708383676273854845817711531764475730270069855571366959622842914819860834936475292719074168444365510704342711559699508093042880177904174497792''"

definition pow309_digits :: string where
  "pow309_digits = CHR ''1'' # replicate 309 CHR ''0''"

text \<open>A power of ten that is correctly rounded except at 26, where it is the double just
  below the correctly rounded one (\<open>9.999999999999999e+25\<close>): one unit in the last place
  off, as an implementation of \<open>**\<close> may be.\<close>

definition pow10_below_26 :: "int \<Rightarrow> double" where
  "pow10_below_26 decimals =
     (if decimals = 26 then Finite 99999999999999987584860160 else js_pow10 decimals)"

text \<open>What holds of every transaction of a returned list: the recipient is the tracked
  contract up to ASCII case, the value is a string that \<open>BigInt\<close> reads as a positive
  integer, and the timestamp is not before the cutoff, that is, at or after it or \<open>NaN\<close>.\<close>

definition sharedInvariant :: "transaction \<Rightarrow> bool" where
  "sharedInvariant t \<longleftrightarrow>
     (tx_timestamp t = NaN \<or> js_ge (tx_timestamp t) (Num START_DATE)) \<and>
     map_option toLowerCase (tx_to t) = Some (toLowerCase GONDI_CONTRACT) \<and>
     (\<exists>v n. tx_value t = Some v \<and> BigInt v = Some n \<and> 0 < n)"

section \<open>Missing credential\<close>

text \<open>
  C1 (corrected). With \<open>ETHERSCAN_API_KEY\<close> unset, the body of the \<open>try\<close> block raises
  the error "ETHERSCAN_API_KEY is required but not set" before any request, and the
  function's own \<open>catch\<close> intercepts it: \<open>fetchEthereumTransactions\<close> returns the empty
  list, no exception passes its boundary, and the world (cache, requests, delays) is
  unchanged, so no upstream request is issued.
\<close>

theorem fetchEthereumTransactions_missing_key:
  "fetchEthereumTransactions_try None up w = (Inl MissingApiKey, w) \<and>
   fetchEthereumTransactions None up w = (Inr [], w) \<and>
   requests (snd (fetchEthereumTransactions None up w)) = requests w"
  by (simp add: fetchEthereumTransactions_def fetchEthereumTransactions_try_def)

theorem fetchEthereumTransactions_missing_key_witness:
  "fetchEthereumTransactions None upstream_empty world0 = (Inr [], world0) \<and>
   requests (snd (fetchEthereumTransactions None upstream_empty world0)) = []"
  using fetchEthereumTransactions_missing_key [of upstream_empty world0]
  by (simp add: world0_def)

text \<open>The claim as stated fails: with the credential unset the call does not raise, it
  returns the empty list.\<close>

theorem fetchEthereumTransactions_missing_key_counterexample:
  "fst (fetchEthereumTransactions None upstream_429 world0) = Inr [] \<and>
   fst (fetchEthereumTransactions None upstream_429 world0) \<noteq> Inl MissingApiKey"
  by (simp add: fetchEthereumTransactions_def fetchEthereumTransactions_try_def)

section \<open>Retry policy\<close>

lemma fetchLoop_all_fail:
  assumes "i < retries"
    and "\<forall>j<retries - i. attempt (respond up (length (requests w) + j) url) = Inl (err (i + j))"
  shows "fst (fetchLoop up url retries i w) = Inl (err (retries - 1)) \<and>
         requests (snd (fetchLoop up url retries i w)) = requests w @ replicate (retries - i) url \<and>
         sleeps (snd (fetchLoop up url retries i w)) = sleeps w @ map backoff [i..<retries - 1] \<and>
         API_CACHE (snd (fetchLoop up url retries i w)) = API_CACHE w \<and>
         now (snd (fetchLoop up url retries i w)) \<ge> now w + sum_list (map backoff [i..<retries - 1])"
  using assms
proof (induction "retries - i" arbitrary: i w)
  case 0
  then show ?case by simp
next
  case (Suc d)
  let ?k = "length (requests w)"
  let ?w1 = "w\<lparr>now := now w + int (latency up ?k), requests := requests w @ [url]\<rparr>"
  from Suc.prems(2) Suc.hyps(2) have a0: "attempt (respond up ?k url) = Inl (err i)"
    by (metis add.right_neutral zero_less_Suc)
  show ?case
  proof (cases "Suc i = retries")
    case True
    then have r: "retries = Suc i" by simp
    have "fetchLoop up url (Suc i) i w = (Inl (err i), ?w1)"
      using a0 unfolding r by (subst fetchLoop.simps) (simp add: Let_def)
    then show ?thesis unfolding r by simp
  next
    case False
    let ?w2 = "sleep (backoff i) ?w1"
    have d: "d = retries - Suc i" using Suc.hyps(2) by simp
    have lt: "Suc i < retries" using False Suc.prems(1) by simp
    have len: "length (requests ?w2) = Suc ?k" by (simp add: sleep_def)
    have fl: "\<forall>j<retries - Suc i.
        attempt (respond up (length (requests ?w2) + j) url) = Inl (err (Suc i + j))"
    proof (intro allI impI)
      fix j assume "j < retries - Suc i"
      then have "Suc j < retries - i" by simp
      with Suc.prems(2) have "attempt (respond up (?k + Suc j) url) = Inl (err (i + Suc j))"
        by blast
      then show "attempt (respond up (length (requests ?w2) + j) url) = Inl (err (Suc i + j))"
        by (simp add: len)
    qed
    note IH = Suc.hyps(1)[OF d lt fl]
    have step: "fetchLoop up url retries i w = fetchLoop up url retries (Suc i) ?w2"
      using a0 False Suc.prems(1) by (subst fetchLoop.simps) (simp add: Let_def)
    have rep: "replicate (retries - i) url = url # replicate (retries - Suc i) url"
      using Suc.prems(1) by (metis Suc_diff_Suc replicate_Suc)
    have upt: "[i..<retries - Suc 0] = i # [Suc i..<retries - Suc 0]"
      using lt by (simp add: upt_conv_Cons)
    have b0: "0 \<le> int (latency up ?k)" by simp
    show ?thesis
      unfolding step using IH b0 by (simp add: sleep_def rep upt)
  qed
qed

text \<open>
  C6. When the cache has no fresh entry for the URL and every one of the \<open>retries\<close>
  attempts fails (its \<open>try\<close> block raises, as on a non-2xx status), \<open>fetchWithRetry\<close>
  issues exactly \<open>retries\<close> requests, waits \<open>min(5000, 1000 * 2^i)\<close> milliseconds after the
  failed attempt \<open>i\<close> for every \<open>i\<close> but the last, and propagates the error of the last
  attempt; the cache is untouched. With the default budget of 3 that is 3 requests and
  the delays 1000 and 2000, so at least 3000 ms pass before the final failure.
\<close>

theorem fetchWithRetry_all_attempts_fail:
  assumes "getCachedData url w = None" and "0 < retries"
    and "\<forall>j<retries. attempt (respond up (length (requests w) + j) url) = Inl (err j)"
  shows "fst (fetchWithRetry up url retries w) = Inl (err (retries - 1)) \<and>
         requests (snd (fetchWithRetry up url retries w)) = requests w @ replicate retries url \<and>
         sleeps (snd (fetchWithRetry up url retries w))
           = sleeps w @ map (\<lambda>i. min 5000 (1000 * 2 ^ i)) [0..<retries - 1] \<and>
         API_CACHE (snd (fetchWithRetry up url retries w)) = API_CACHE w \<and>
         now (snd (fetchWithRetry up url retries w))
           \<ge> now w + sum_list (map (\<lambda>i. min 5000 (1000 * 2 ^ i)) [0..<retries - 1]) \<and>
         (retries = DEFAULT_RETRIES \<longrightarrow>
            length (requests (snd (fetchWithRetry up url retries w))) = length (requests w) + 3 \<and>
            sleeps (snd (fetchWithRetry up url retries w)) = sleeps w @ [1000, 2000] \<and>
            now (snd (fetchWithRetry up url retries w)) \<ge> now w + (1000 + 2000))"
proof -
  have fw: "fetchWithRetry up url retries w = fetchLoop up url retries 0 w"
    using assms(1) by (simp add: fetchWithRetry_def)
  have bo: "backoff = (\<lambda>i. min 5000 (1000 * 2 ^ i))"
    by (rule ext) (simp add: backoff_def)
  have main: "fst (fetchLoop up url retries 0 w) = Inl (err (retries - 1)) \<and>
         requests (snd (fetchLoop up url retries 0 w)) = requests w @ replicate (retries - 0) url \<and>
         sleeps (snd (fetchLoop up url retries 0 w)) = sleeps w @ map backoff [0..<retries - 1] \<and>
         API_CACHE (snd (fetchLoop up url retries 0 w)) = API_CACHE w \<and>
         now (snd (fetchLoop up url retries 0 w)) \<ge> now w + sum_list (map backoff [0..<retries - 1])"
    using fetchLoop_all_fail[of 0 retries up w url err] assms(2,3) by simp
  have three: "map backoff [0..<DEFAULT_RETRIES - 1] = [1000, 2000]"
    by (simp add: DEFAULT_RETRIES_def backoff_def upt_rec)
  have sum3: "sum_list (map backoff [0..<DEFAULT_RETRIES - 1]) = 1000 + 2000"
    by (simp add: DEFAULT_RETRIES_def backoff_def upt_rec)
  have len3: "length (replicate DEFAULT_RETRIES url) = 3"
    by (simp add: DEFAULT_RETRIES_def)
  have dflt: "retries = DEFAULT_RETRIES \<longrightarrow>
            length (requests (snd (fetchLoop up url retries 0 w))) = length (requests w) + 3 \<and>
            sleeps (snd (fetchLoop up url retries 0 w)) = sleeps w @ [1000, 2000] \<and>
            now (snd (fetchLoop up url retries 0 w)) \<ge> now w + (1000 + 2000)"
  proof
    assume r: "retries = DEFAULT_RETRIES"
    show "length (requests (snd (fetchLoop up url retries 0 w))) = length (requests w) + 3 \<and>
            sleeps (snd (fetchLoop up url retries 0 w)) = sleeps w @ [1000, 2000] \<and>
            now (snd (fetchLoop up url retries 0 w)) \<ge> now w + (1000 + 2000)"
      using main len3 unfolding r three sum3 by simp
  qed
  show ?thesis
    unfolding fw using main dflt unfolding bo by simp
qed

theorem fetchWithRetry_all_attempts_fail_witness:
  "fst (fetchWithRetry upstream_429 ''u'' DEFAULT_RETRIES world0)
     = Inl (HttpError 429 ''Too Many Requests'') \<and>
   requests (snd (fetchWithRetry upstream_429 ''u'' DEFAULT_RETRIES world0)) = [''u'', ''u'', ''u''] \<and>
   sleeps (snd (fetchWithRetry upstream_429 ''u'' DEFAULT_RETRIES world0)) = [1000, 2000] \<and>
   now (snd (fetchWithRetry upstream_429 ''u'' DEFAULT_RETRIES world0)) \<ge> 3000"
proof -
  have miss: "getCachedData ''u'' world0 = None"
    by (simp add: getCachedData_def world0_def)
  have pos: "0 < DEFAULT_RETRIES" by (simp add: DEFAULT_RETRIES_def)
  have fail: "\<forall>j<DEFAULT_RETRIES.
      attempt (respond upstream_429 (length (requests world0) + j) ''u'')
        = Inl ((\<lambda>j. HttpError 429 ''Too Many Requests'') j)"
    by (simp add: upstream_429_def response_ok_def)
  from fetchWithRetry_all_attempts_fail[OF miss pos fail]
  show ?thesis by (simp add: world0_def DEFAULT_RETRIES_def numeral_3_eq_3)
qed

section \<open>The "No transactions found" envelope and the cache\<close>

lemma fetchLoop_requests:
  "\<exists>m. requests (snd (fetchLoop up url retries i w)) = requests w @ replicate m url"
proof (induction "retries - i" arbitrary: i w)
  case 0
  then show ?case by (subst fetchLoop.simps) (simp add: exI[of _ 0])
next
  case (Suc d)
  then have lt: "i < retries" by simp
  let ?k = "length (requests w)"
  let ?w1 = "w\<lparr>now := now w + int (latency up ?k), requests := requests w @ [url]\<rparr>"
  show ?case
  proof (cases "attempt (respond up ?k url)")
    case (Inr r)
    then have "requests (snd (fetchLoop up url retries i w)) = requests w @ replicate (Suc 0) url"
      using lt by (subst fetchLoop.simps) (cases r; simp add: Let_def setCachedData_def)
    then show ?thesis by blast
  next
    case (Inl e)
    show ?thesis
    proof (cases "Suc i = retries")
      case True
      then have "requests (snd (fetchLoop up url retries i w)) = requests w @ replicate (Suc 0) url"
        using Inl lt by (subst fetchLoop.simps) (simp add: Let_def)
      then show ?thesis by blast
    next
      case False
      from Suc(2) have "d = retries - Suc i" by simp
      from Suc(1)[OF this, of "sleep (backoff i) ?w1"]
      obtain m where "requests (snd (fetchLoop up url retries (Suc i) (sleep (backoff i) ?w1)))
          = requests (sleep (backoff i) ?w1) @ replicate m url" by blast
      then have "requests (snd (fetchLoop up url retries i w)) = requests w @ replicate (Suc m) url"
        using Inl lt False by (subst fetchLoop.simps) (simp add: Let_def sleep_def)
      then show ?thesis by blast
    qed
  qed
qed

lemma fetchLoop_first_request:
  assumes "i < retries"
  shows "\<exists>rest. requests (snd (fetchLoop up url retries i w)) = requests w @ url # rest"
proof -
  let ?k = "length (requests w)"
  let ?w1 = "w\<lparr>now := now w + int (latency up ?k), requests := requests w @ [url]\<rparr>"
  show ?thesis
  proof (cases "attempt (respond up ?k url)")
    case (Inr r)
    then have "requests (snd (fetchLoop up url retries i w)) = requests w @ url # []"
      using assms by (subst fetchLoop.simps) (cases r; simp add: Let_def setCachedData_def)
    then show ?thesis by blast
  next
    case (Inl e)
    show ?thesis
    proof (cases "Suc i = retries")
      case True
      then have "requests (snd (fetchLoop up url retries i w)) = requests w @ url # []"
        using Inl assms by (subst fetchLoop.simps) (simp add: Let_def)
      then show ?thesis by blast
    next
      case False
      obtain m where "requests (snd (fetchLoop up url retries (Suc i) (sleep (backoff i) ?w1)))
          = requests (sleep (backoff i) ?w1) @ replicate m url"
        using fetchLoop_requests by blast
      then have "requests (snd (fetchLoop up url retries i w)) = requests w @ url # replicate m url"
        using Inl assms False by (subst fetchLoop.simps) (simp add: Let_def sleep_def)
      then show ?thesis by blast
    qed
  qed
qed

lemma attempt_no_transactions:
  assumes "response_ok status" and "env_status data = Some ''0''"
    and "env_message data = Some ''No transactions found''"
  shows "attempt (HttpResponse status statusText (BodyObject data)) = Inr NoTransactions"
  using assms by simp

lemma attempt_Results:
  assumes "attempt out = Inr (Results results)"
  shows "\<exists>status statusText data. out = HttpResponse status statusText (BodyObject data) \<and>
           response_ok status \<and> env_status data \<noteq> Some ''0''"
  using assms by (cases out) (auto split: if_splits body.splits)

lemma fetchLoop_cache_written:
  "API_CACHE (snd (fetchLoop up url retries i w)) = API_CACHE w \<or>
   (\<exists>k results. attempt (respond up k url) = Inr (Results results) \<and>
      fst (fetchLoop up url retries i w) = Inr results \<and>
      API_CACHE (snd (fetchLoop up url retries i w))
        = (API_CACHE w)(url \<mapsto> (results, now (snd (fetchLoop up url retries i w)))))"
proof (induction "retries - i" arbitrary: i w)
  case 0
  then show ?case by (subst (1 2 3 4) fetchLoop.simps) simp
next
  case (Suc d)
  then have lt: "i < retries" by simp
  let ?k = "length (requests w)"
  let ?w1 = "w\<lparr>now := now w + int (latency up ?k), requests := requests w @ [url]\<rparr>"
  show ?case
  proof (cases "attempt (respond up ?k url)")
    case (Inr r)
    show ?thesis
    proof (cases r)
      case NoTransactions
      then have "fetchLoop up url retries i w = (Inr [], ?w1)"
        using Inr lt by (subst fetchLoop.simps) (simp add: Let_def)
      then show ?thesis by simp
    next
      case (Results results)
      then have "fetchLoop up url retries i w = (Inr results, setCachedData url results ?w1)"
        using Inr lt by (subst fetchLoop.simps) (simp add: Let_def)
      moreover have "attempt (respond up ?k url) = Inr (Results results)"
        using Inr Results by simp
      ultimately show ?thesis by (auto simp: setCachedData_def)
    qed
  next
    case (Inl e)
    show ?thesis
    proof (cases "Suc i = retries")
      case True
      then have "fetchLoop up url retries i w = (Inl e, ?w1)"
        using Inl lt by (subst fetchLoop.simps) (simp add: Let_def)
      then show ?thesis by simp
    next
      case False
      let ?w2 = "sleep (backoff i) ?w1"
      have step: "fetchLoop up url retries i w = fetchLoop up url retries (Suc i) ?w2"
        using Inl False lt by (subst fetchLoop.simps) (simp add: Let_def)
      from Suc(2) have "d = retries - Suc i" by simp
      from Suc(1)[OF this, of ?w2] have
        "API_CACHE (snd (fetchLoop up url retries (Suc i) ?w2)) = API_CACHE ?w2 \<or>
         (\<exists>k results. attempt (respond up k url) = Inr (Results results) \<and>
            fst (fetchLoop up url retries (Suc i) ?w2) = Inr results \<and>
            API_CACHE (snd (fetchLoop up url retries (Suc i) ?w2))
              = (API_CACHE ?w2)(url \<mapsto> (results, now (snd (fetchLoop up url retries (Suc i) ?w2)))))" .
      moreover have "API_CACHE ?w2 = API_CACHE w" by (simp add: sleep_def)
      ultimately show ?thesis unfolding step by simp
    qed
  qed
qed

lemma getCachedData_stale:
  assumes "getCachedData url w = None" and "API_CACHE w2 = API_CACHE w" and "now w \<le> now w2"
  shows "getCachedData url w2 = None"
  using assms by (auto simp: getCachedData_def split: option.splits if_splits)

text \<open>
  C7. When the response to an attempt is a 2xx response whose envelope has status "0" and
  message "No transactions found", the loop ends at that attempt with the empty list: the
  result is a normal return and not an error, no further request is issued, no delay is
  waited and the cache is not written (the world changes only by the one request and
  its latency). For the first attempt of \<open>fetchWithRetry\<close> after a cache miss this is
  the result of the whole call.
\<close>

theorem fetchWithRetry_no_transactions:
  assumes "i < retries"
    and "respond up (length (requests w)) url = HttpResponse status statusText (BodyObject data)"
    and "response_ok status"
    and "env_status data = Some ''0''"
    and "env_message data = Some ''No transactions found''"
  shows "fetchLoop up url retries i w
           = (Inr [], w\<lparr>now := now w + int (latency up (length (requests w))),
                        requests := requests w @ [url]\<rparr>) \<and>
         (i = 0 \<and> getCachedData url w = None \<longrightarrow>
            fetchWithRetry up url retries w
              = (Inr [], w\<lparr>now := now w + int (latency up (length (requests w))),
                           requests := requests w @ [url]\<rparr>))"
proof -
  have a: "attempt (respond up (length (requests w)) url) = Inr NoTransactions"
    unfolding assms(2) using assms(3-5) by (rule attempt_no_transactions)
  have l: "fetchLoop up url retries i w
           = (Inr [], w\<lparr>now := now w + int (latency up (length (requests w))),
                        requests := requests w @ [url]\<rparr>)"
    using a assms(1) by (subst fetchLoop.simps) (simp add: Let_def)
  then show ?thesis by (auto simp: fetchWithRetry_def)
qed

text \<open>
  C10. After a cache miss, a "No transactions found" response makes \<open>fetchWithRetry\<close>
  return the empty list and leave \<open>API_CACHE\<close> as it was. Hence a later call for the
  same URL, at any later time (inside the 30 minutes or after) and with the cache still
  in that state, misses the cache again and issues a request for the URL. In every call,
  the cache is written only when some response was a 2xx response whose envelope status
  is not "0", and the call then returns a result list.
\<close>

theorem fetchWithRetry_no_transactions_not_cached:
  assumes "getCachedData url w = None" and "0 < retries"
    and "respond up (length (requests w)) url = HttpResponse status statusText (BodyObject data)"
    and "response_ok status"
    and "env_status data = Some ''0''"
    and "env_message data = Some ''No transactions found''"
  shows "fst (fetchWithRetry up url retries w) = Inr [] \<and>
         API_CACHE (snd (fetchWithRetry up url retries w)) = API_CACHE w \<and>
         (\<forall>w2 up2 retries2.
            API_CACHE w2 = API_CACHE (snd (fetchWithRetry up url retries w)) \<and>
            now w \<le> now w2 \<and> 0 < retries2 \<longrightarrow>
              getCachedData url w2 = None \<and>
              (\<exists>rest. requests (snd (fetchWithRetry up2 url retries2 w2)) = requests w2 @ url # rest)) \<and>
         (\<forall>up' url' retries' w'.
            API_CACHE (snd (fetchWithRetry up' url' retries' w')) \<noteq> API_CACHE w' \<longrightarrow>
              (\<exists>k status' statusText' data' results.
                 respond up' k url' = HttpResponse status' statusText' (BodyObject data') \<and>
                 response_ok status' \<and> env_status data' \<noteq> Some ''0'' \<and>
                 fst (fetchWithRetry up' url' retries' w') = Inr results))"
proof -
  have a: "attempt (respond up (length (requests w)) url) = Inr NoTransactions"
    unfolding assms(3) using assms(4-6) by (rule attempt_no_transactions)
  have l: "fetchLoop up url retries 0 w
           = (Inr [], w\<lparr>now := now w + int (latency up (length (requests w))),
                        requests := requests w @ [url]\<rparr>)"
    using a assms(2) by (subst fetchLoop.simps) (simp add: Let_def)
  have fw: "fetchWithRetry up url retries w
           = (Inr [], w\<lparr>now := now w + int (latency up (length (requests w))),
                        requests := requests w @ [url]\<rparr>)"
    using l assms(1) by (simp add: fetchWithRetry_def)
  have again: "getCachedData url w2 = None \<and>
      (\<exists>rest. requests (snd (fetchWithRetry up2 url retries2 w2)) = requests w2 @ url # rest)"
    if "API_CACHE w2 = API_CACHE (snd (fetchWithRetry up url retries w))"
      and "now w \<le> now w2" and "0 < retries2" for w2 up2 retries2
  proof -
    have c: "API_CACHE w2 = API_CACHE w" using that(1) fw by simp
    have m: "getCachedData url w2 = None"
      using assms(1) c that(2) by (rule getCachedData_stale)
    then have "fetchWithRetry up2 url retries2 w2 = fetchLoop up2 url retries2 0 w2"
      by (simp add: fetchWithRetry_def)
    then show ?thesis using m fetchLoop_first_request[OF that(3)] by simp
  qed
  have written: "\<exists>k status' statusText' data' results.
                 respond up' k url' = HttpResponse status' statusText' (BodyObject data') \<and>
                 response_ok status' \<and> env_status data' \<noteq> Some ''0'' \<and>
                 fst (fetchWithRetry up' url' retries' w') = Inr results"
    if ne: "API_CACHE (snd (fetchWithRetry up' url' retries' w')) \<noteq> API_CACHE w'"
    for up' url' retries' w'
  proof -
    have fl: "fetchWithRetry up' url' retries' w' = fetchLoop up' url' retries' 0 w'"
      using ne by (cases "getCachedData url' w'") (simp_all add: fetchWithRetry_def)
    from fetchLoop_cache_written[of up' url' retries' 0 w'] ne
    obtain k results where kr: "attempt (respond up' k url') = Inr (Results results)"
      "fst (fetchLoop up' url' retries' 0 w') = Inr results"
      unfolding fl by blast
    from attempt_Results[OF kr(1)] kr(2) show ?thesis unfolding fl by blast
  qed
  have r1: "fst (fetchWithRetry up url retries w) = Inr []" using fw by simp
  have r2: "API_CACHE (snd (fetchWithRetry up url retries w)) = API_CACHE w" using fw by simp
  show ?thesis
    by (intro conjI allI impI r1 r2 again written) blast+
qed

theorem fetchWithRetry_no_transactions_witness:
  "fetchLoop upstream_none ''u'' DEFAULT_RETRIES 0 world0 = (Inr [], world0\<lparr>requests := [''u'']\<rparr>) \<and>
   fetchWithRetry upstream_none ''u'' DEFAULT_RETRIES world0 = (Inr [], world0\<lparr>requests := [''u'']\<rparr>) \<and>
   sleeps (snd (fetchWithRetry upstream_none ''u'' DEFAULT_RETRIES world0)) = []"
proof -
  have r: "respond upstream_none (length (requests world0)) ''u''
      = HttpResponse 200 ''OK'' (BodyObject \<lparr>env_status = Some ''0'',
          env_message = Some ''No transactions found'', env_result = ResultArray []\<rparr>)"
    by (simp add: upstream_none_def)
  have ok: "response_ok 200" by (simp add: response_ok_def)
  have miss: "getCachedData ''u'' world0 = None"
    by (simp add: getCachedData_def world0_def)
  have pos: "0 < DEFAULT_RETRIES" by (simp add: DEFAULT_RETRIES_def)
  from fetchWithRetry_no_transactions[OF pos r ok] miss
  show ?thesis by (simp add: world0_def upstream_none_def)
qed

theorem fetchWithRetry_no_transactions_not_cached_witness:
  "fst (fetchWithRetry upstream_none ''u'' DEFAULT_RETRIES world0) = Inr [] \<and>
   API_CACHE (snd (fetchWithRetry upstream_none ''u'' DEFAULT_RETRIES world0)) = Map.empty \<and>
   (\<exists>rest. requests (snd (fetchWithRetry upstream_none ''u'' DEFAULT_RETRIES
       (snd (fetchWithRetry upstream_none ''u'' DEFAULT_RETRIES world0)))) = [''u''] @ ''u'' # rest)"
proof -
  have r: "respond upstream_none (length (requests world0)) ''u''
      = HttpResponse 200 ''OK'' (BodyObject \<lparr>env_status = Some ''0'',
          env_message = Some ''No transactions found'', env_result = ResultArray []\<rparr>)"
    by (simp add: upstream_none_def)
  have ok: "response_ok 200" by (simp add: response_ok_def)
  have miss: "getCachedData ''u'' world0 = None"
    by (simp add: getCachedData_def world0_def)
  have pos: "0 < DEFAULT_RETRIES" by (simp add: DEFAULT_RETRIES_def)
  let ?w1 = "snd (fetchWithRetry upstream_none ''u'' DEFAULT_RETRIES world0)"
  note t = fetchWithRetry_no_transactions_not_cached[OF miss pos r ok, simplified]
  have w1: "fetchWithRetry upstream_none ''u'' DEFAULT_RETRIES world0
      = (Inr [], world0\<lparr>requests := [''u'']\<rparr>)"
    using miss pos r
    by (simp add: fetchWithRetry_def fetchLoop.simps[of _ _ _ 0] upstream_none_def response_ok_def world0_def)
  have later: "now world0 \<le> now ?w1" by (simp add: w1)
  from t have c1: "fst (fetchWithRetry upstream_none ''u'' DEFAULT_RETRIES world0) = Inr []"
    and c2: "API_CACHE ?w1 = API_CACHE world0"
    and c3: "\<forall>w2. API_CACHE w2 = API_CACHE ?w1 \<and> now world0 \<le> now w2
        \<longrightarrow> (\<forall>up2 retries2. 0 < retries2 \<longrightarrow> (\<exists>rest. requests (snd (fetchWithRetry up2 ''u'' retries2 w2)) = requests w2 @ ''u'' # rest))"
    by blast+
  from c3 later pos have "\<exists>rest. requests (snd (fetchWithRetry upstream_none ''u'' DEFAULT_RETRIES ?w1))
      = requests ?w1 @ ''u'' # rest" by blast
  moreover have "requests ?w1 = [''u'']" unfolding w1 by (simp add: world0_def)
  moreover have "API_CACHE world0 = Map.empty" by (simp add: world0_def)
  ultimately show ?thesis using c1 c2 by simp
qed

section \<open>Category filters\<close>

lemma js_filter_Inr:
  "js_filter p xs = Inr ys \<Longrightarrow> ys = filter (\<lambda>x. p x = Inr True) xs"
  by (induction xs arbitrary: ys) (auto split: sum.splits if_splits)

lemma js_filter_raises:
  "x \<in> set xs \<Longrightarrow> p x = Inl e \<Longrightarrow> \<exists>e'. js_filter p xs = Inl e'"
  by (induction xs) (auto split: sum.splits)

lemma js_filter_total:
  "\<forall>x\<in>set xs. \<exists>b. p x = Inr b \<Longrightarrow> js_filter p xs = Inr (filter (\<lambda>x. p x = Inr True) xs)"
  by (induction xs) (auto split: sum.splits)

lemma allow_list_distinct: "toLowerCase USDC_CONTRACT \<noteq> toLowerCase WETH_CONTRACT"
  by (simp add: USDC_CONTRACT_def WETH_CONTRACT_def toLowerCase_def lowerChar_def)

text \<open>
  C8. A raw token-transfer record that passes the three shared checks of the filter (its
  timestamp is not before the cutoff, its recipient is the tracked contract up to ASCII
  case, its value is a non-empty string that \<open>BigInt\<close> reads as a positive integer) is
  accepted by the token filter exactly when its \<open>contractAddress\<close>, lower-cased, is the
  lower-cased USDC or WETH contract address; these are two different addresses. So such a
  record of a fetched list is retained by the filter if and only if it is allow-listed.
\<close>

theorem tokenFilter_allow_list:
  assumes "\<not> js_lt (parseInt (raw_timeStamp tx)) (Num START_TIMESTAMP)"
    and "map_option toLowerCase (raw_to tx) = Some (toLowerCase GONDI_CONTRACT)"
    and "raw_value tx = Some v" and "v \<noteq> []" and "BigInt v = Some n" and "0 < n"
  shows "tokenFilter tx =
           Inr (map_option toLowerCase (raw_contractAddress tx) = Some (toLowerCase USDC_CONTRACT) \<or>
                map_option toLowerCase (raw_contractAddress tx) = Some (toLowerCase WETH_CONTRACT)) \<and>
         toLowerCase USDC_CONTRACT \<noteq> toLowerCase WETH_CONTRACT \<and>
         (\<forall>raws kept. tx \<in> set raws \<and> js_filter tokenFilter raws = Inr kept \<longrightarrow>
            (tx \<in> set kept \<longleftrightarrow>
               (map_option toLowerCase (raw_contractAddress tx) = Some (toLowerCase USDC_CONTRACT) \<or>
                map_option toLowerCase (raw_contractAddress tx) = Some (toLowerCase WETH_CONTRACT))))"
proof -
  let ?A = "map_option toLowerCase (raw_contractAddress tx) = Some (toLowerCase USDC_CONTRACT) \<or>
            map_option toLowerCase (raw_contractAddress tx) = Some (toLowerCase WETH_CONTRACT)"
  have f: "tokenFilter tx = Inr ?A"
    using assms by (simp add: tokenFilter_def Let_def)
  have l: "tx \<in> set kept \<longleftrightarrow> ?A"
    if "tx \<in> set raws" and "js_filter tokenFilter raws = Inr kept" for raws kept
    using js_filter_Inr[OF that(2)] that(1) f by auto
  show ?thesis using f l allow_list_distinct by blast
qed

theorem tokenFilter_allow_list_witness:
  "tokenFilter usdc_record = Inr True \<and> tokenFilter usdt_record = Inr False \<and>
   js_filter tokenFilter [usdc_record, usdt_record] = Inr [usdc_record]"
proof -
  have v: "raw_value usdc_record = Some ''1000000''" "raw_value usdt_record = Some ''1000000''"
    by (simp_all add: usdc_record_def usdt_record_def)
  have ne: "''1000000'' \<noteq> []" by simp
  have b: "BigInt ''1000000'' = Some 1000000" by code_simp
  have pos: "(0::int) < 1000000" by simp
  have ts: "\<not> js_lt (parseInt (raw_timeStamp usdc_record)) (Num START_TIMESTAMP)"
     "\<not> js_lt (parseInt (raw_timeStamp usdt_record)) (Num START_TIMESTAMP)" by code_simp+
  have to: "map_option toLowerCase (raw_to usdc_record) = Some (toLowerCase GONDI_CONTRACT)"
     "map_option toLowerCase (raw_to usdt_record) = Some (toLowerCase GONDI_CONTRACT)" by code_simp+
  have a1: "(map_option toLowerCase (raw_contractAddress usdc_record) = Some (toLowerCase USDC_CONTRACT) \<or>
            map_option toLowerCase (raw_contractAddress usdc_record) = Some (toLowerCase WETH_CONTRACT)) = True"
    by code_simp
  have a2: "(map_option toLowerCase (raw_contractAddress usdt_record) = Some (toLowerCase USDC_CONTRACT) \<or>
            map_option toLowerCase (raw_contractAddress usdt_record) = Some (toLowerCase WETH_CONTRACT)) = False"
    by code_simp
  from tokenFilter_allow_list[OF ts(1) to(1) v(1) ne b pos] have t1: "tokenFilter usdc_record = Inr True"
    unfolding a1 by blast
  from tokenFilter_allow_list[OF ts(2) to(2) v(2) ne b pos] have t2: "tokenFilter usdt_record = Inr False"
    unfolding a2 by blast
  show ?thesis using t1 t2 by simp
qed

section \<open>Exceptions of the filters\<close>

lemma tokenFilter_raises_iff:
  "(\<exists>e. tokenFilter tx = Inl e) \<longleftrightarrow>
     (\<not> js_lt (parseInt (raw_timeStamp tx)) (Num START_TIMESTAMP) \<and>
      map_option toLowerCase (raw_to tx) = Some (toLowerCase GONDI_CONTRACT) \<and>
      (\<exists>v. raw_value tx = Some v \<and> v \<noteq> [] \<and> BigInt v = None))"
  by (auto simp: tokenFilter_def Let_def split: option.splits if_splits)

lemma internalFilter_raises_iff:
  "(\<exists>e. internalFilter tx = Inl e) \<longleftrightarrow>
     (\<not> js_lt (parseInt (raw_timeStamp tx)) (Num START_TIMESTAMP) \<and>
      map_option toLowerCase (raw_to tx) = Some (toLowerCase GONDI_CONTRACT) \<and>
      (\<exists>v. raw_value tx = Some v \<and> v \<noteq> [] \<and> BigInt v = None))"
  by (auto simp: internalFilter_def split: option.splits if_splits)

lemma processTokens_raises:
  "tx \<in> set raws \<Longrightarrow> tokenFilter tx = Inl e \<Longrightarrow> \<exists>e'. processTokens raws = Inl e'"
  using js_filter_raises[of tx raws tokenFilter e] by (auto simp: processTokens_def)

lemma processInternal_raises:
  "tx \<in> set raws \<Longrightarrow> internalFilter tx = Inl e \<Longrightarrow> \<exists>e'. processInternal raws = Inl e'"
  using js_filter_raises[of tx raws internalFilter e] by (auto simp: processInternal_def)

lemma fetchEthereumTransactions_try_unfold:
  assumes "apikey \<noteq> []"
    and "fetchWithRetry up (tokenUrl apikey) DEFAULT_RETRIES w = (tokenResults, w1)"
    and "fetchWithRetry up (internalUrl apikey) DEFAULT_RETRIES (sleep 1000 w1) = (internalResults, w3)"
    and "tokenBranch up (tokenUrl apikey) tokenResults w3 = (tokens, w4)"
  shows "fetchEthereumTransactions_try (Some apikey) up w =
           (case tokens of
              Inl e \<Rightarrow> (Inl e, w4)
            | Inr transactions \<Rightarrow>
                (case internalBranch internalResults transactions of
                   Inl e \<Rightarrow> (Inl e, w4)
                 | Inr transactions' \<Rightarrow> (Inr (uniqueTransactions transactions'), w4)))"
  using assms by (simp add: fetchEthereumTransactions_try_def)

lemma fetchEthereumTransactions_catch:
  "fst (fetchEthereumTransactions_try k up w) = Inl e \<Longrightarrow>
   fst (fetchEthereumTransactions k up w) = Inr []"
  by (cases "fetchEthereumTransactions_try k up w")
     (simp add: fetchEthereumTransactions_def)

lemma fetchEthereumTransactions_pass:
  "fst (fetchEthereumTransactions_try k up w) = Inr txs \<Longrightarrow>
   fst (fetchEthereumTransactions k up w) = Inr txs"
  by (cases "fetchEthereumTransactions_try k up w")
     (simp add: fetchEthereumTransactions_def)

text \<open>
  C9 (corrected). Name the outcomes of the three fetches the function can make (token
  transfers, internal transfers, and the direct retry of the token transfers). Suppose
  the first fetch of a category is fulfilled and one of its records passes the date and
  recipient checks of the filter and carries a non-empty value that \<open>BigInt\<close> cannot
  read. Then the conversion raises, the exception reaches the outer \<open>catch\<close> and
  \<open>fetchEthereumTransactions\<close> returns the empty list, whatever the other category
  delivered. A record that the date check or the recipient check drops is never
  converted: both filters return \<open>false\<close> on it, whatever its value. On the direct retry
  of the token transfers the inner \<open>catch\<close> takes the exception of the filter: when the
  first token fetch is rejected, the retry is fulfilled with a record on which the filter
  raises, and the internal category is fetched and normalized, the result is the
  deduplicated internal transactions.
\<close>

theorem malformed_value_empties_result:
  assumes "apikey \<noteq> []"
    and "fetchWithRetry up (tokenUrl apikey) DEFAULT_RETRIES w = (tokenResults, w1)"
    and "fetchWithRetry up (internalUrl apikey) DEFAULT_RETRIES (sleep 1000 w1) = (internalResults, w3)"
    and "fetchWithRetry up (tokenUrl apikey) DEFAULT_RETRIES w3 = (retryTokens, w5)"
  shows "(tx \<in> set raws \<and> (tokenResults = Inr raws \<or> internalResults = Inr raws) \<and>
          \<not> js_lt (parseInt (raw_timeStamp tx)) (Num START_TIMESTAMP) \<and>
          map_option toLowerCase (raw_to tx) = Some (toLowerCase GONDI_CONTRACT) \<and>
          raw_value tx = Some v \<and> v \<noteq> [] \<and> BigInt v = None \<longrightarrow>
            fst (fetchEthereumTransactions (Some apikey) up w) = Inr []) \<and>
         (\<forall>tx'. js_lt (parseInt (raw_timeStamp tx')) (Num START_TIMESTAMP) \<or>
                map_option toLowerCase (raw_to tx') \<noteq> Some (toLowerCase GONDI_CONTRACT) \<longrightarrow>
                tokenFilter tx' = Inr False \<and> internalFilter tx' = Inr False) \<and>
         (tokenResults = Inl e1 \<and> retryTokens = Inr rawsR \<and> txR \<in> set rawsR \<and>
          tokenFilter txR = Inl e3 \<and>
          internalResults = Inr rawsI \<and> processInternal rawsI = Inr ethInternal \<longrightarrow>
            fst (fetchEthereumTransactions (Some apikey) up w) = Inr (uniqueTransactions ethInternal))"
proof -
  obtain tokens w4 where tb: "tokenBranch up (tokenUrl apikey) tokenResults w3 = (tokens, w4)"
    by (cases "tokenBranch up (tokenUrl apikey) tokenResults w3")
  note u = fetchEthereumTransactions_try_unfold[OF assms(1-3) tb]
  have main: "fst (fetchEthereumTransactions (Some apikey) up w) = Inr []"
    if h: "tx \<in> set raws" "tokenResults = Inr raws \<or> internalResults = Inr raws"
      "\<not> js_lt (parseInt (raw_timeStamp tx)) (Num START_TIMESTAMP)"
      "map_option toLowerCase (raw_to tx) = Some (toLowerCase GONDI_CONTRACT)"
      "raw_value tx = Some v" "v \<noteq> []" "BigInt v = None"
  proof -
    have ft: "\<exists>e. tokenFilter tx = Inl e"
      unfolding tokenFilter_raises_iff using h(3-7) by simp
    have fi: "\<exists>e. internalFilter tx = Inl e"
      unfolding internalFilter_raises_iff using h(3-7) by simp
    have "\<exists>e. fst (fetchEthereumTransactions_try (Some apikey) up w) = Inl e"
      using h(2)
    proof
      assume t: "tokenResults = Inr raws"
      from ft processTokens_raises[OF h(1)] obtain e' where "processTokens raws = Inl e'" by blast
      then have "tokens = Inl e'" using tb t by (simp add: tokenBranch_def)
      then show ?thesis unfolding u by simp
    next
      assume i: "internalResults = Inr raws"
      from fi processInternal_raises[OF h(1)] obtain e' where p: "processInternal raws = Inl e'"
        by blast
      show ?thesis
      proof (cases tokens)
        case (Inl e0)
        then show ?thesis unfolding u by simp
      next
        case (Inr transactions)
        then show ?thesis unfolding u using p i by (simp add: internalBranch_def)
      qed
    qed
    then show ?thesis using fetchEthereumTransactions_catch by blast
  qed
  have dropped: "tokenFilter tx' = Inr False \<and> internalFilter tx' = Inr False"
    if "js_lt (parseInt (raw_timeStamp tx')) (Num START_TIMESTAMP) \<or>
        map_option toLowerCase (raw_to tx') \<noteq> Some (toLowerCase GONDI_CONTRACT)" for tx'
    using that by (auto simp: tokenFilter_def internalFilter_def)
  have retry: "fst (fetchEthereumTransactions (Some apikey) up w) = Inr (uniqueTransactions ethInternal)"
    if h: "tokenResults = Inl e1" "retryTokens = Inr rawsR" "txR \<in> set rawsR"
      "tokenFilter txR = Inl e3" "internalResults = Inr rawsI"
      "processInternal rawsI = Inr ethInternal"
  proof -
    from processTokens_raises[OF h(3,4)] obtain e' where p: "processTokens rawsR = Inl e'" by blast
    have tb': "tokenBranch up (tokenUrl apikey) tokenResults w3 = (Inr [], w5)"
      using assms(4) h(1,2) p by (simp add: tokenBranch_def)
    have "fst (fetchEthereumTransactions_try (Some apikey) up w) = Inr (uniqueTransactions ethInternal)"
      unfolding fetchEthereumTransactions_try_unfold[OF assms(1-3) tb']
      using h(5,6) by (simp add: internalBranch_def)
    then show ?thesis by (rule fetchEthereumTransactions_pass)
  qed
  show ?thesis
  proof (intro conjI impI allI)
    assume "tx \<in> set raws \<and> (tokenResults = Inr raws \<or> internalResults = Inr raws) \<and>
          \<not> js_lt (parseInt (raw_timeStamp tx)) (Num START_TIMESTAMP) \<and>
          map_option toLowerCase (raw_to tx) = Some (toLowerCase GONDI_CONTRACT) \<and>
          raw_value tx = Some v \<and> v \<noteq> [] \<and> BigInt v = None"
    then show "fst (fetchEthereumTransactions (Some apikey) up w) = Inr []"
      by (elim conjE) (rule main)
  next
    fix tx' :: raw
    assume "js_lt (parseInt (raw_timeStamp tx')) (Num START_TIMESTAMP) \<or>
        map_option toLowerCase (raw_to tx') \<noteq> Some (toLowerCase GONDI_CONTRACT)"
    then show "tokenFilter tx' = Inr False" using dropped by blast
  next
    fix tx' :: raw
    assume "js_lt (parseInt (raw_timeStamp tx')) (Num START_TIMESTAMP) \<or>
        map_option toLowerCase (raw_to tx') \<noteq> Some (toLowerCase GONDI_CONTRACT)"
    then show "internalFilter tx' = Inr False" using dropped by blast
  next
    assume "tokenResults = Inl e1 \<and> retryTokens = Inr rawsR \<and> txR \<in> set rawsR \<and>
          tokenFilter txR = Inl e3 \<and>
          internalResults = Inr rawsI \<and> processInternal rawsI = Inr ethInternal"
    then show "fst (fetchEthereumTransactions (Some apikey) up w) = Inr (uniqueTransactions ethInternal)"
      by (elim conjE) (rule retry)
  qed
qed

lemma tokenUrl_neq_internalUrl: "tokenUrl k \<noteq> internalUrl k"
  by (simp add: tokenUrl_def internalUrl_def)

lemma fetchWithRetry_first_ok:
  assumes "getCachedData url w = None"
    and "respond up (length (requests w)) url = ok_body raws"
  shows "fetchWithRetry up url DEFAULT_RETRIES w =
     (Inr raws, setCachedData url raws
        (w\<lparr>now := now w + int (latency up (length (requests w))), requests := requests w @ [url]\<rparr>))"
  using assms
  by (simp add: fetchWithRetry_def fetchLoop.simps[of _ _ _ 0] DEFAULT_RETRIES_def ok_body_def
      response_ok_def Let_def)

theorem malformed_value_empties_result_witness:
  "fst (fetchEthereumTransactions (Some ''KEY'') upstream_malformed world0) = Inr [] \<and>
   processTokens [usdc_record] = Inr [normalizeToken usdc_record] \<and>
   tokenFilter old_bad_record = Inr False \<and>
   fst (fetchEthereumTransactions (Some ''KEY'') upstream_retry_malformed world0)
     = Inr [normalizeInternal dup_internal_record]"
proof -
  let ?t = "tokenUrl ''KEY''" and ?i = "internalUrl ''KEY''"
  have k: "''KEY'' \<noteq> []" by simp
  have a: "fst (fetchEthereumTransactions (Some ''KEY'') upstream_malformed world0) = Inr [] \<and>
           tokenFilter old_bad_record = Inr False"
  proof -
    let ?up = upstream_malformed
    define r1 where "r1 = fetchWithRetry ?up ?t DEFAULT_RETRIES world0"
    define r2 where "r2 = fetchWithRetry ?up ?i DEFAULT_RETRIES (sleep 1000 (snd r1))"
    define r3 where "r3 = fetchWithRetry ?up ?t DEFAULT_RETRIES (snd r2)"
    have e1: "fetchWithRetry ?up ?t DEFAULT_RETRIES world0 = (fst r1, snd r1)"
      by (simp add: r1_def)
    have e2: "fetchWithRetry ?up ?i DEFAULT_RETRIES (sleep 1000 (snd r1)) = (fst r2, snd r2)"
      by (simp add: r2_def)
    have e3: "fetchWithRetry ?up ?t DEFAULT_RETRIES (snd r2) = (fst r3, snd r3)"
      by (simp add: r3_def)
    have f2: "fst r2 = Inr [bad_value_record]"
      unfolding r2_def r1_def by code_simp
    have b1: "\<not> js_lt (parseInt (raw_timeStamp bad_value_record)) (Num START_TIMESTAMP)"
      by code_simp
    have b2: "map_option toLowerCase (raw_to bad_value_record) = Some (toLowerCase GONDI_CONTRACT)"
      by code_simp
    have b3: "raw_value bad_value_record = Some ''abc''" by (simp add: bad_value_record_def)
    have b4: "BigInt ''abc'' = None" by code_simp
    have o: "js_lt (parseInt (raw_timeStamp old_bad_record)) (Num START_TIMESTAMP)"
      by code_simp
    note t = malformed_value_empties_result[OF k e1 e2 e3,
        of bad_value_record "[bad_value_record]" "''abc''"]
    have "fst (fetchEthereumTransactions (Some ''KEY'') ?up world0) = Inr []"
      using t f2 b1 b2 b3 b4 by simp
    moreover have "tokenFilter old_bad_record = Inr False"
      using t o by blast
    ultimately show ?thesis by simp
  qed
  have good: "tokenFilter usdc_record = Inr True" by code_simp
  have p: "processTokens [usdc_record] = Inr [normalizeToken usdc_record]"
    by (simp add: processTokens_def good)
  have c: "fst (fetchEthereumTransactions (Some ''KEY'') upstream_retry_malformed world0)
     = Inr [normalizeInternal dup_internal_record]"
  proof -
    let ?up = upstream_retry_malformed
    let ?e = "HttpError 429 ''Too Many Requests''"
    define r1 where "r1 = fetchWithRetry ?up ?t DEFAULT_RETRIES world0"
    define r2 where "r2 = fetchWithRetry ?up ?i DEFAULT_RETRIES (sleep 1000 (snd r1))"
    define r3 where "r3 = fetchWithRetry ?up ?t DEFAULT_RETRIES (snd r2)"
    have e1: "fetchWithRetry ?up ?t DEFAULT_RETRIES world0 = (fst r1, snd r1)"
      by (simp add: r1_def)
    have e2: "fetchWithRetry ?up ?i DEFAULT_RETRIES (sleep 1000 (snd r1)) = (fst r2, snd r2)"
      by (simp add: r2_def)
    have e3: "fetchWithRetry ?up ?t DEFAULT_RETRIES (snd r2) = (fst r3, snd r3)"
      by (simp add: r3_def)
    have f1: "fst r1 = Inl ?e" unfolding r1_def by code_simp
    have f2: "fst r2 = Inr [dup_internal_record]" unfolding r2_def r1_def by code_simp
    have f3: "fst r3 = Inr [bad_value_record]" unfolding r3_def r2_def r1_def by code_simp
    have bad: "tokenFilter bad_value_record = Inl (SyntaxError ''abc'')" by code_simp
    have fi: "internalFilter dup_internal_record = Inr True" by code_simp
    have pi: "processInternal [dup_internal_record] = Inr [normalizeInternal dup_internal_record]"
      by (simp add: processInternal_def fi)
    have u: "uniqueTransactions [normalizeInternal dup_internal_record]
        = [normalizeInternal dup_internal_record]"
      by code_simp
    note t = malformed_value_empties_result[OF k e1 e2 e3,
        of _ _ _ ?e "[bad_value_record]" bad_value_record "SyntaxError ''abc''"
           "[dup_internal_record]" "[normalizeInternal dup_internal_record]"]
    have "fst (fetchEthereumTransactions (Some ''KEY'') ?up world0)
       = Inr (uniqueTransactions [normalizeInternal dup_internal_record])"
      using t f1 f2 f3 bad pi by simp
    then show ?thesis using u by simp
  qed
  show ?thesis using a p c by simp
qed

text \<open>The claim as stated fails at two inputs. In the first the token category is
  fetched at once and holds, after a good USDC record, a record whose value "abc" is not
  an integer string but whose timestamp is before the cutoff: the date check drops it,
  nothing raises, and both the USDC and the internal transaction are returned. In the
  second the token category is fetched by the direct retry and holds a record with value
  "abc" on which the filter raises: the inner \<open>catch\<close> takes the exception and the
  internal transaction is returned.\<close>

theorem malformed_value_empties_result_counterexample:
  "BigInt ''abc'' = None \<and>
   raw_value old_bad_record = Some ''abc'' \<and>
   fst (fetchWithRetry upstream_old_malformed (tokenUrl ''KEY'') DEFAULT_RETRIES world0)
     = Inr [usdc_record, old_bad_record] \<and>
   fst (fetchEthereumTransactions (Some ''KEY'') upstream_old_malformed world0)
     = Inr [normalizeToken usdc_record, normalizeInternal dup_internal_record] \<and>
   raw_value bad_value_record = Some ''abc'' \<and>
   tokenFilter bad_value_record = Inl (SyntaxError ''abc'') \<and>
   fst (fetchWithRetry upstream_retry_malformed (tokenUrl ''KEY'') DEFAULT_RETRIES
          (snd (fetchWithRetry upstream_retry_malformed (internalUrl ''KEY'') DEFAULT_RETRIES
             (sleep 1000 (snd (fetchWithRetry upstream_retry_malformed (tokenUrl ''KEY'')
                DEFAULT_RETRIES world0))))))
     = Inr [bad_value_record] \<and>
   fst (fetchEthereumTransactions (Some ''KEY'') upstream_retry_malformed world0)
     = Inr [normalizeInternal dup_internal_record]"
proof -
  have a: "BigInt ''abc'' = None" by code_simp
  have b: "raw_value old_bad_record = Some ''abc''" by (simp add: old_bad_record_def)
  have c: "fst (fetchWithRetry upstream_old_malformed (tokenUrl ''KEY'') DEFAULT_RETRIES world0)
     = Inr [usdc_record, old_bad_record]" by code_simp
  have d: "fst (fetchEthereumTransactions (Some ''KEY'') upstream_old_malformed world0)
     = Inr [normalizeToken usdc_record, normalizeInternal dup_internal_record]" by code_simp
  have e: "raw_value bad_value_record = Some ''abc''" by (simp add: bad_value_record_def)
  have f: "tokenFilter bad_value_record = Inl (SyntaxError ''abc'')" by code_simp
  have g: "fst (fetchWithRetry upstream_retry_malformed (tokenUrl ''KEY'') DEFAULT_RETRIES
          (snd (fetchWithRetry upstream_retry_malformed (internalUrl ''KEY'') DEFAULT_RETRIES
             (sleep 1000 (snd (fetchWithRetry upstream_retry_malformed (tokenUrl ''KEY'')
                DEFAULT_RETRIES world0))))))
     = Inr [bad_value_record]" by code_simp
  have h: "fst (fetchEthereumTransactions (Some ''KEY'') upstream_retry_malformed world0)
     = Inr [normalizeInternal dup_internal_record]" by code_simp
  show ?thesis by (intro conjI a b c d e f g h)
qed

section \<open>Deduplication: lemmas\<close>

lemma findIndex_ge: "- 1 \<le> findIndex p xs"
  by (induction xs) (auto simp: Let_def)

lemma findIndex_eq_iff:
  "i < length xs \<Longrightarrow> (findIndex p xs = int i) = (p (xs ! i) \<and> (\<forall>j<i. \<not> p (xs ! j)))"
proof (induction xs arbitrary: i)
  case Nil
  then show ?case by simp
next
  case (Cons x xs)
  show ?case
  proof (cases i)
    case 0
    then show ?thesis using findIndex_ge[of p xs] by (auto simp: Let_def)
  next
    case (Suc k)
    then have k: "k < length xs" using Cons.prems by simp
    have "(findIndex p (x # xs) = int (Suc k)) = (\<not> p x \<and> findIndex p xs = int k)"
      using findIndex_ge[of p xs] by (auto simp: Let_def)
    also have "\<dots> = (\<not> p x \<and> p (xs ! k) \<and> (\<forall>j<k. \<not> p (xs ! j)))"
      using Cons.IH[OF k] by simp
    also have "\<dots> = (p ((x # xs) ! Suc k) \<and> (\<forall>j<Suc k. \<not> p ((x # xs) ! j)))"
      by (auto simp: less_Suc_eq_0_disj)
    finally show ?thesis using Suc by simp
  qed
qed

lemma sameEvent_refl: "sameEvent t t"
  by (simp add: sameEvent_def)

lemma uniqueTransactions_nths:
  "uniqueTransactions xs =
     map ((!) xs) (filter (\<lambda>i. \<forall>j<i. \<not> sameEvent (xs ! i) (xs ! j)) [0..<length xs])"
proof -
  have e: "enumerate 0 xs = map (\<lambda>i. (i, xs ! i)) [0..<length xs]"
    by (simp add: enumerate_eq_zip zip_eq_conv comp_def map_nth)
  have "uniqueTransactions xs =
      map ((!) xs) (filter (\<lambda>i. findIndex (sameEvent (xs ! i)) xs = int i) [0..<length xs])"
    by (simp add: uniqueTransactions_def e filter_map comp_def)
  also have "filter (\<lambda>i. findIndex (sameEvent (xs ! i)) xs = int i) [0..<length xs]
      = filter (\<lambda>i. \<forall>j<i. \<not> sameEvent (xs ! i) (xs ! j)) [0..<length xs]"
    by (rule filter_cong) (simp_all add: findIndex_eq_iff sameEvent_refl)
  finally show ?thesis .
qed

lemma sameEvent_key: "sameEvent a b \<longleftrightarrow> eventKey a = eventKey b"
  by (auto simp: sameEvent_def eventKey_def)

lemma uniqueTransactions_distinct: "distinct (map eventKey (uniqueTransactions xs))"
proof -
  let ?P = "\<lambda>i. \<forall>j<i. \<not> sameEvent (xs ! i) (xs ! j)"
  have inj: "inj_on (\<lambda>i. eventKey (xs ! i)) {i. i < length xs \<and> ?P i}"
  proof (rule inj_onI)
    fix a b assume a: "a \<in> {i. i < length xs \<and> ?P i}" and b: "b \<in> {i. i < length xs \<and> ?P i}"
      and eq: "eventKey (xs ! a) = eventKey (xs ! b)"
    show "a = b"
    proof (rule ccontr)
      assume "a \<noteq> b"
      then consider "a < b" | "b < a" by linarith
      then show False
      proof cases
        case 1
        with b have "\<not> sameEvent (xs ! b) (xs ! a)" by simp
        then show False using eq by (simp add: sameEvent_key)
      next
        case 2
        with a have "\<not> sameEvent (xs ! a) (xs ! b)" by simp
        then show False using eq by (simp add: sameEvent_key)
      qed
    qed
  qed
  have "distinct (map (\<lambda>i. eventKey (xs ! i)) (filter ?P [0..<length xs]))"
    by (rule iffD2[OF distinct_map]) (auto intro: inj_on_subset[OF inj])
  then show ?thesis by (simp add: uniqueTransactions_nths comp_def)
qed

lemma uniqueTransactions_id:
  assumes "distinct (map eventKey ys)"
  shows "uniqueTransactions ys = ys"
proof -
  have "filter (\<lambda>i. \<forall>j<i. \<not> sameEvent (ys ! i) (ys ! j)) [0..<length ys] = [0..<length ys]"
  proof (rule iffD2[OF filter_id_conv], intro ballI allI impI)
    fix i j assume i: "i \<in> set [0..<length ys]" and j: "j < i"
    then have "i < length ys" "j < length ys" "i \<noteq> j" by auto
    then have "map eventKey ys ! i \<noteq> map eventKey ys ! j"
      using assms by (simp add: nth_eq_iff_index_eq del: nth_map)
    then show "\<not> sameEvent (ys ! i) (ys ! j)"
      using \<open>i < length ys\<close> \<open>j < length ys\<close> by (simp add: sameEvent_key)
  qed
  then show ?thesis by (simp add: uniqueTransactions_nths map_nth)
qed

lemma uniqueTransactions_idem: "uniqueTransactions (uniqueTransactions xs) = uniqueTransactions xs"
  by (rule uniqueTransactions_id) (rule uniqueTransactions_distinct)

lemma uniqueTransactions_subseq: "subseq (uniqueTransactions xs) xs"
proof -
  have "subseq (map ((!) xs) (filter (\<lambda>i. \<forall>j<i. \<not> sameEvent (xs ! i) (xs ! j)) [0..<length xs]))
               (map ((!) xs) [0..<length xs])"
    by (intro subseq_map subseq_filter_left)
  then show ?thesis by (simp add: uniqueTransactions_nths map_nth)
qed


section \<open>Deduplication of the returned list\<close>

lemma fetchEthereumTransactions_both_fulfilled:
  assumes "apikey \<noteq> []"
    and "fetchWithRetry up (tokenUrl apikey) DEFAULT_RETRIES w = (Inr rawsT, w1)"
    and "fetchWithRetry up (internalUrl apikey) DEFAULT_RETRIES (sleep 1000 w1) = (Inr rawsI, w3)"
    and "processTokens rawsT = Inr tokens"
    and "processInternal rawsI = Inr ethInternal"
  shows "fst (fetchEthereumTransactions (Some apikey) up w) = Inr (uniqueTransactions (tokens @ ethInternal))"
proof -
  have tb: "tokenBranch up (tokenUrl apikey) (Inr rawsT) w3 = (Inr tokens, w3)"
    using assms(4) by (simp add: tokenBranch_def)
  show ?thesis
    by (rule fetchEthereumTransactions_pass)
       (simp add: fetchEthereumTransactions_try_unfold[OF assms(1-3) tb] internalBranch_def assms(5))
qed

lemma fetchEthereumTransactions_shape:
  "fst (fetchEthereumTransactions k up w) = Inr [] \<or>
   (\<exists>transactions. fst (fetchEthereumTransactions k up w) = Inr (uniqueTransactions transactions))"
proof (cases "fst (fetchEthereumTransactions_try k up w)")
  case (Inl e)
  then show ?thesis using fetchEthereumTransactions_catch by blast
next
  case (Inr txs)
  have "\<exists>transactions. txs = uniqueTransactions transactions"
  proof (cases k)
    case None
    then show ?thesis using Inr by (simp add: fetchEthereumTransactions_try_def)
  next
    case (Some apikey)
    show ?thesis
    proof (cases "apikey = []")
      case True
      then show ?thesis using Inr Some by (simp add: fetchEthereumTransactions_try_def)
    next
      case False
      obtain tokenResults w1 where r1: "fetchWithRetry up (tokenUrl apikey) DEFAULT_RETRIES w = (tokenResults, w1)"
        by (cases "fetchWithRetry up (tokenUrl apikey) DEFAULT_RETRIES w")
      obtain internalResults w3 where r2: "fetchWithRetry up (internalUrl apikey) DEFAULT_RETRIES (sleep 1000 w1) = (internalResults, w3)"
        by (cases "fetchWithRetry up (internalUrl apikey) DEFAULT_RETRIES (sleep 1000 w1)")
      obtain tokens w4 where tb: "tokenBranch up (tokenUrl apikey) tokenResults w3 = (tokens, w4)"
        by (cases "tokenBranch up (tokenUrl apikey) tokenResults w3")
      note u = fetchEthereumTransactions_try_unfold[OF False r1 r2 tb]
      show ?thesis using Inr unfolding Some u
        by (auto split: sum.splits)
    qed
  qed
  then show ?thesis using fetchEthereumTransactions_pass[OF Inr] by blast
qed

text \<open>
  C3. In the list \<open>uniqueTransactions\<close> builds, no two transactions share both hash and
  value; the element at index \<open>i\<close> of the input is kept exactly when no earlier element
  has its hash and value, so of several transactions sharing both only the first by list
  order is kept; the function is idempotent and its output is a subsequence of its input
  (relative order is preserved). Every list \<open>fetchEthereumTransactions\<close> returns has the
  first property, and when both categories are fetched and normalized the returned list is
  \<open>uniqueTransactions\<close> of the token transactions followed by the internal ones, so
  duplicates across the two categories are dropped as well.
\<close>

theorem uniqueTransactions_dedup:
  "distinct (map eventKey (uniqueTransactions xs)) \<and>
   uniqueTransactions xs =
     map ((!) xs) (filter (\<lambda>i. \<forall>j<i. eventKey (xs ! j) \<noteq> eventKey (xs ! i)) [0..<length xs]) \<and>
   uniqueTransactions (uniqueTransactions xs) = uniqueTransactions xs \<and>
   subseq (uniqueTransactions xs) xs \<and>
   (\<forall>k up w txs. fst (fetchEthereumTransactions k up w) = Inr txs \<longrightarrow> distinct (map eventKey txs)) \<and>
   (\<forall>apikey up w w1 w3 rawsT rawsI tokens ethInternal.
      apikey \<noteq> [] \<and>
      fetchWithRetry up (tokenUrl apikey) DEFAULT_RETRIES w = (Inr rawsT, w1) \<and>
      fetchWithRetry up (internalUrl apikey) DEFAULT_RETRIES (sleep 1000 w1) = (Inr rawsI, w3) \<and>
      processTokens rawsT = Inr tokens \<and> processInternal rawsI = Inr ethInternal \<longrightarrow>
      fst (fetchEthereumTransactions (Some apikey) up w)
        = Inr (uniqueTransactions (tokens @ ethInternal)))"
proof -
  have nths: "uniqueTransactions xs =
     map ((!) xs) (filter (\<lambda>i. \<forall>j<i. eventKey (xs ! j) \<noteq> eventKey (xs ! i)) [0..<length xs])"
  proof -
    have "(\<lambda>i. \<forall>j<i. \<not> sameEvent (xs ! i) (xs ! j))
        = (\<lambda>i. \<forall>j<i. eventKey (xs ! j) \<noteq> eventKey (xs ! i))"
      by (intro ext) (auto simp: sameEvent_key)
    then show ?thesis unfolding uniqueTransactions_nths by simp
  qed
  have ret: "distinct (map eventKey txs)"
    if "fst (fetchEthereumTransactions k up w) = Inr txs" for k up w txs
    using fetchEthereumTransactions_shape[of k up w] that uniqueTransactions_distinct by auto
  have both: "\<forall>apikey up w w1 w3 rawsT rawsI tokens ethInternal.
      apikey \<noteq> [] \<and>
      fetchWithRetry up (tokenUrl apikey) DEFAULT_RETRIES w = (Inr rawsT, w1) \<and>
      fetchWithRetry up (internalUrl apikey) DEFAULT_RETRIES (sleep 1000 w1) = (Inr rawsI, w3) \<and>
      processTokens rawsT = Inr tokens \<and> processInternal rawsI = Inr ethInternal \<longrightarrow>
      fst (fetchEthereumTransactions (Some apikey) up w)
        = Inr (uniqueTransactions (tokens @ ethInternal))"
    by (intro allI impI, elim conjE) (rule fetchEthereumTransactions_both_fulfilled)
  have ret': "\<forall>k up w txs. fst (fetchEthereumTransactions k up w) = Inr txs
      \<longrightarrow> distinct (map eventKey txs)"
    by (intro allI impI) (rule ret)
  show ?thesis
    by (intro conjI uniqueTransactions_distinct nths uniqueTransactions_idem
        uniqueTransactions_subseq ret' both)
qed

theorem uniqueTransactions_dedup_witness:
  "fst (fetchEthereumTransactions (Some ''KEY'') upstream_duplicate world0)
     = Inr [normalizeToken dup_token_record] \<and>
   uniqueTransactions [normalizeToken dup_token_record, normalizeInternal dup_internal_record]
     = [normalizeToken dup_token_record] \<and>
   eventKey (normalizeToken dup_token_record) = (Some ''0xabc'', Some ''500'') \<and>
   eventKey (normalizeInternal dup_internal_record) = (Some ''0xabc'', Some ''500'')"
proof -
  let ?w1 = "setCachedData (tokenUrl ''KEY'') [dup_token_record]
     (world0\<lparr>now := now world0 + int (latency upstream_duplicate (length (requests world0))),
       requests := requests world0 @ [tokenUrl ''KEY'']\<rparr>)"
  let ?w2 = "sleep 1000 ?w1"
  let ?w3 = "setCachedData (internalUrl ''KEY'') [dup_internal_record]
     (?w2\<lparr>now := now ?w2 + int (latency upstream_duplicate (length (requests ?w2))),
       requests := requests ?w2 @ [internalUrl ''KEY'']\<rparr>)"
  have k: "''KEY'' \<noteq> []" by simp
  have r1: "fetchWithRetry upstream_duplicate (tokenUrl ''KEY'') DEFAULT_RETRIES world0 = (Inr [dup_token_record], ?w1)"
    by (rule fetchWithRetry_first_ok) (simp_all add: getCachedData_def world0_def upstream_duplicate_def)
  have r2: "fetchWithRetry upstream_duplicate (internalUrl ''KEY'') DEFAULT_RETRIES ?w2 = (Inr [dup_internal_record], ?w3)"
    by (rule fetchWithRetry_first_ok)
       (simp_all add: getCachedData_def world0_def upstream_duplicate_def sleep_def
          setCachedData_def tokenUrl_neq_internalUrl[symmetric])
  have ft: "tokenFilter dup_token_record = Inr True" by code_simp
  have fi: "internalFilter dup_internal_record = Inr True" by code_simp
  have pt: "processTokens [dup_token_record] = Inr [normalizeToken dup_token_record]"
    by (simp add: processTokens_def ft)
  have pi: "processInternal [dup_internal_record] = Inr [normalizeInternal dup_internal_record]"
    by (simp add: processInternal_def fi)
  have k1: "eventKey (normalizeToken dup_token_record) = (Some ''0xabc'', Some ''500'')"
    by (simp add: eventKey_def normalizeToken_def dup_token_record_def usdc_record_def)
  have k2: "eventKey (normalizeInternal dup_internal_record) = (Some ''0xabc'', Some ''500'')"
    by (simp add: eventKey_def normalizeInternal_def dup_internal_record_def)
  let ?xs = "[normalizeToken dup_token_record, normalizeInternal dup_internal_record]"
  note t = uniqueTransactions_dedup[of ?xs]
  from t have n: "uniqueTransactions ?xs =
     map ((!) ?xs) (filter (\<lambda>i. \<forall>j<i. eventKey (?xs ! j) \<noteq> eventKey (?xs ! i)) [0..<length ?xs])"
    by blast
  have u: "uniqueTransactions ?xs = [normalizeToken dup_token_record]"
    unfolding n by (simp add: k1 k2 upt_rec)
  from t k r1 r2 pt pi have "fst (fetchEthereumTransactions (Some ''KEY'') upstream_duplicate world0)
        = Inr (uniqueTransactions ([normalizeToken dup_token_record] @ [normalizeInternal dup_internal_record]))"
    by blast
  then show ?thesis using u k1 k2 by simp
qed

section \<open>The orchestrator never throws\<close>

lemma getCachedData_absent: "API_CACHE w url = None \<Longrightarrow> getCachedData url w = None"
  by (simp add: getCachedData_def)


lemma tokenBranch_fulfilled:
  "tokenBranch up url (Inr raws) w = (processTokens raws, w)"
  by (simp add: tokenBranch_def)

lemma tokenBranch_rejected_total: 
  "\<exists>tokens. fst (tokenBranch up url (Inl e) w) = Inr tokens"
  by (auto simp: tokenBranch_def split: prod.splits sum.splits)

lemma tokenBranch_total_world:
  "tokenBranch up url (Inl e) w = (fst (tokenBranch up url (Inl e) w), snd (tokenBranch up url (Inl e) w))"
  by simp



section \<open>Invariants of the returned transactions\<close>

lemma js_filter_subset: "js_filter p xs = Inr ys \<Longrightarrow> x \<in> set ys \<Longrightarrow> x \<in> set xs \<and> p x = Inr True"
  using js_filter_Inr[of p xs ys] by auto

lemma tokenFilter_True:
  assumes "tokenFilter tx = Inr True"
  shows "\<not> js_lt (parseInt (raw_timeStamp tx)) (Num START_TIMESTAMP) \<and>
         map_option toLowerCase (raw_to tx) = Some (toLowerCase GONDI_CONTRACT) \<and>
         (\<exists>v n. raw_value tx = Some v \<and> BigInt v = Some n \<and> 0 < n)"
  using assms by (auto simp: tokenFilter_def Let_def split: if_splits option.splits)

lemma internalFilter_True:
  assumes "internalFilter tx = Inr True"
  shows "\<not> js_lt (parseInt (raw_timeStamp tx)) (Num START_TIMESTAMP) \<and>
         map_option toLowerCase (raw_to tx) = Some (toLowerCase GONDI_CONTRACT) \<and>
         (\<exists>v n. raw_value tx = Some v \<and> BigInt v = Some n \<and> 0 < n)"
  using assms by (auto simp: internalFilter_def split: if_splits option.splits)

lemma START_DATE_eq: "START_DATE = 1761091200000" "START_TIMESTAMP = 1761091200"
  by (simp_all add: START_TIMESTAMP_def START_DATE_def daysFromCivil_def)

lemma timestamp_not_before:
  assumes "\<not> js_lt n (Num START_TIMESTAMP)"
  shows "js_times n 1000 = NaN \<or> js_ge (js_times n 1000) (Num START_DATE)"
  using assms by (cases n) (auto simp: START_DATE_eq)

lemma processTokens_invariant:
  assumes "processTokens raws = Inr txs" and "t \<in> set txs"
  shows "sharedInvariant t"
proof -
  from assms obtain kept where k: "js_filter tokenFilter raws = Inr kept" "txs = map normalizeToken kept"
    by (auto simp: processTokens_def split: sum.splits)
  with assms(2) obtain tx where tx: "tx \<in> set kept" "t = normalizeToken tx" by auto
  from js_filter_subset[OF k(1) tx(1)] have "tokenFilter tx = Inr True" by simp
  from tokenFilter_True[OF this] show ?thesis
    using timestamp_not_before[of "parseInt (raw_timeStamp tx)"]
    by (auto simp: sharedInvariant_def tx(2) normalizeToken_def)
qed

lemma processInternal_invariant:
  assumes "processInternal raws = Inr txs" and "t \<in> set txs"
  shows "sharedInvariant t"
proof -
  from assms obtain kept where k: "js_filter internalFilter raws = Inr kept" "txs = map normalizeInternal kept"
    by (auto simp: processInternal_def split: sum.splits)
  with assms(2) obtain tx where tx: "tx \<in> set kept" "t = normalizeInternal tx" by auto
  from js_filter_subset[OF k(1) tx(1)] have "internalFilter tx = Inr True" by simp
  from internalFilter_True[OF this] show ?thesis
    using timestamp_not_before[of "parseInt (raw_timeStamp tx)"]
    by (auto simp: sharedInvariant_def tx(2) normalizeInternal_def)
qed

lemma tokenBranch_invariant:
  assumes "tokenBranch up url tokenResults w = (Inr txs, w')" and "t \<in> set txs"
  shows "sharedInvariant t"
  using assms processTokens_invariant
  by (auto simp: tokenBranch_def split: sum.splits prod.splits)

lemma internalBranch_invariant:
  assumes "internalBranch internalResults transactions = Inr txs" and "t \<in> set txs"
    and "\<forall>t\<in>set transactions. sharedInvariant t"
  shows "sharedInvariant t"
  using assms processInternal_invariant
  by (auto simp: internalBranch_def split: sum.splits)

lemma uniqueTransactions_set: "set (uniqueTransactions xs) \<subseteq> set xs"
  using uniqueTransactions_subseq[of xs] by (metis set_nths_subset subseq_conv_nths)

text \<open>Apart from the \<open>NaN\<close> timestamp, the three invariants hold of everything the function
  returns.\<close>

lemma fetchEthereumTransactions_invariant:
  assumes "fst (fetchEthereumTransactions k up w) = Inr txs" and "t \<in> set txs"
  shows "sharedInvariant t"
proof (cases "fst (fetchEthereumTransactions_try k up w)")
  case (Inl e)
  from fetchEthereumTransactions_catch[OF this] assms show ?thesis by simp
next
  case (Inr txs')
  from fetchEthereumTransactions_pass[OF this] assms(1) have eq: "txs' = txs" by simp
  show ?thesis
  proof (cases k)
    case None
    then show ?thesis using Inr by (simp add: fetchEthereumTransactions_try_def)
  next
    case (Some apikey)
    show ?thesis
    proof (cases "apikey = []")
      case True
      then show ?thesis using Inr Some by (simp add: fetchEthereumTransactions_try_def)
    next
      case False
      obtain tokenResults w1 where r1: "fetchWithRetry up (tokenUrl apikey) DEFAULT_RETRIES w = (tokenResults, w1)"
        by (cases "fetchWithRetry up (tokenUrl apikey) DEFAULT_RETRIES w")
      obtain internalResults w3 where r2: "fetchWithRetry up (internalUrl apikey) DEFAULT_RETRIES (sleep 1000 w1) = (internalResults, w3)"
        by (cases "fetchWithRetry up (internalUrl apikey) DEFAULT_RETRIES (sleep 1000 w1)")
      obtain tokens w4 where tb: "tokenBranch up (tokenUrl apikey) tokenResults w3 = (tokens, w4)"
        by (cases "tokenBranch up (tokenUrl apikey) tokenResults w3")
      note u = fetchEthereumTransactions_try_unfold[OF False r1 r2 tb]
      from Inr obtain transactions transactions' where
        a: "tokens = Inr transactions" "internalBranch internalResults transactions = Inr transactions'"
           "txs' = uniqueTransactions transactions'"
        unfolding Some u by (auto split: sum.splits)
      have "\<forall>t\<in>set transactions. sharedInvariant t"
        using tokenBranch_invariant[OF tb[unfolded a(1)]] by blast
      then have "\<forall>t\<in>set transactions'. sharedInvariant t"
        using internalBranch_invariant[OF a(2)] by blast
      then show ?thesis using assms(2) uniqueTransactions_set[of transactions'] a(3) eq by blast
    qed
  qed
qed

text \<open>
  C2 (the code diverges). The claim asks that every returned Transaction has a timestamp
  at or after the cutoff. The date check of both filters is \<open>txTimestamp < START_TIMESTAMP\<close>,
  which is false when \<open>parseInt\<close> gives \<open>NaN\<close>: a record without a numeric \<open>timeStamp\<close>
  passes the check and is returned with timestamp \<open>NaN\<close>, which is not at or after the
  cutoff. Here the token category delivers one USDC transfer to the tracked contract whose
  \<open>timeStamp\<close> field is absent.
\<close>

theorem missing_timestamp_survives:
  "fst (fetchEthereumTransactions (Some ''KEY'') upstream_no_timestamp world0)
     = Inr [normalizeToken no_timestamp_record] \<and>
   raw_timeStamp no_timestamp_record = None \<and>
   tx_timestamp (normalizeToken no_timestamp_record) = NaN \<and>
   \<not> js_ge (tx_timestamp (normalizeToken no_timestamp_record)) (Num START_DATE)"
proof -
  let ?up = upstream_no_timestamp
  let ?w1 = "setCachedData (tokenUrl ''KEY'') [no_timestamp_record]
     (world0\<lparr>now := now world0 + int (latency ?up (length (requests world0))),
       requests := requests world0 @ [tokenUrl ''KEY'']\<rparr>)"
  let ?w2 = "sleep 1000 ?w1"
  let ?w3 = "setCachedData (internalUrl ''KEY'') []
     (?w2\<lparr>now := now ?w2 + int (latency ?up (length (requests ?w2))),
       requests := requests ?w2 @ [internalUrl ''KEY'']\<rparr>)"
  have k: "''KEY'' \<noteq> []" by simp
  have r1: "fetchWithRetry ?up (tokenUrl ''KEY'') DEFAULT_RETRIES world0 = (Inr [no_timestamp_record], ?w1)"
    by (rule fetchWithRetry_first_ok) (simp_all add: getCachedData_def world0_def upstream_no_timestamp_def)
  have r2: "fetchWithRetry ?up (internalUrl ''KEY'') DEFAULT_RETRIES ?w2 = (Inr [], ?w3)"
    by (rule fetchWithRetry_first_ok)
       (simp_all add: getCachedData_def world0_def upstream_no_timestamp_def sleep_def
          setCachedData_def tokenUrl_neq_internalUrl[symmetric])
  have ft: "tokenFilter no_timestamp_record = Inr True" by code_simp
  have pt: "processTokens [no_timestamp_record] = Inr [normalizeToken no_timestamp_record]"
    by (simp add: processTokens_def ft)
  have pi: "processInternal [] = Inr []" by (simp add: processInternal_def)
  have u: "uniqueTransactions [normalizeToken no_timestamp_record] = [normalizeToken no_timestamp_record]"
    by (rule uniqueTransactions_id) simp
  have ts: "raw_timeStamp no_timestamp_record = None"
    by (simp add: no_timestamp_record_def)
  have nan: "tx_timestamp (normalizeToken no_timestamp_record) = NaN"
    by (simp add: normalizeToken_def ts)
  from fetchEthereumTransactions_both_fulfilled[OF k r1 r2 pt pi]
  show ?thesis using u ts nan by simp
qed

section \<open>Value Parser: rounding and accuracy\<close>

lemma roundTiesToEven_err: "\<bar>of_int (roundTiesToEven q) - q\<bar> \<le> 1 / 2"
  unfolding roundTiesToEven_def Let_def by (auto simp: abs_if) linarith+

lemma roundTiesToEven_of_int [simp]: "roundTiesToEven (of_int z) = z"
  by (simp add: roundTiesToEven_def)

lemma roundTiesToEven_nonneg: "0 \<le> q \<Longrightarrow> 0 \<le> roundTiesToEven q"
  unfolding roundTiesToEven_def Let_def by (auto simp: abs_if)

lemma round53_nonneg: "0 \<le> x \<Longrightarrow> 0 \<le> round53 x"
  by (auto simp: round53_def Let_def intro!: mult_nonneg_nonneg roundTiesToEven_nonneg)

lemma round53_error:
  assumes "2 powr (- 1022) \<le> \<bar>x\<bar>"
  shows "\<bar>round53 x - x\<bar> \<le> \<bar>x\<bar> / 2 ^ 53"
proof -
  have x0: "x \<noteq> 0" using assms by (auto simp: not_le[symmetric])
  then have ax: "0 < \<bar>x\<bar>" by simp
  define f where "f = \<lfloor>log 2 \<bar>x\<bar>\<rfloor>"
  have "log 2 (2 powr (- 1022)) \<le> log 2 \<bar>x\<bar>"
    using assms ax by (subst log_le_cancel_iff) auto
  then have "- 1022 \<le> log 2 \<bar>x\<bar>" by simp
  then have f_ge: "- 1022 \<le> f" unfolding f_def by (simp add: le_floor_iff)
  define e where "e = f - 52"
  have e': "max (f - 52) (- 1074) = e"
    using f_ge by (simp add: e_def)
  have e: "max (\<lfloor>log 2 \<bar>x\<bar>\<rfloor> - 52) (- 1074) = e"
    using e' unfolding f_def .
  define p where "p = 2 powr (of_int e :: real)"
  have p0: "0 < p" by (simp add: p_def)
  have r: "round53 x = of_int (roundTiesToEven (x / p)) * p"
    using x0 by (simp add: round53_def e p_def Let_def)
  have "round53 x - x = (of_int (roundTiesToEven (x / p)) - x / p) * p"
    using p0 by (simp add: r field_simps)
  then have "\<bar>round53 x - x\<bar> = \<bar>of_int (roundTiesToEven (x / p)) - x / p\<bar> * p"
    using p0 by (simp only: abs_mult abs_of_pos)
  also have "\<dots> \<le> 1 / 2 * p"
    using roundTiesToEven_err[of "x / p"] p0 by (intro mult_right_mono) auto
  also have "p = 2 powr (of_int f) / 2 ^ 52"
    by (simp add: p_def e_def powr_diff)
  also have "2 powr (of_int f) \<le> \<bar>x\<bar>"
  proof -
    have "of_int f \<le> log 2 \<bar>x\<bar>" by (simp add: f_def)
    then have "2 powr (of_int f) \<le> 2 powr (log 2 \<bar>x\<bar>)" by (simp add: powr_le_cancel_iff)
    then show ?thesis using ax by simp
  qed
  finally show ?thesis by (simp add: field_simps)
qed

lemma round53_exact:
  assumes "\<bar>m\<bar> < 2 ^ 53"
  shows "round53 (of_int m * 2 ^ k) = of_int m * 2 ^ k"
proof (cases "m = 0")
  case True
  then show ?thesis by (simp add: round53_def)
next
  case False
  define x :: real where "x = of_int m * 2 ^ k"
  have x0: "x \<noteq> 0" using False by (simp add: x_def)
  have ax: "0 < \<bar>x\<bar>" using x0 by simp
  have "\<bar>x\<bar> = of_int \<bar>m\<bar> * 2 ^ k" by (simp add: x_def abs_mult)
  also have "\<dots> < 2 ^ 53 * 2 ^ k"
    using assms by (intro mult_strict_right_mono) (simp_all add: of_int_less_iff[where 'a=real, symmetric] del: of_int_less_iff)
  finally have lt: "\<bar>x\<bar> < 2 powr (of_int (53 + int k))"
    by (simp add: powr_realpow[symmetric] powr_add power_add[symmetric] )
  define e where "e = max (\<lfloor>log 2 \<bar>x\<bar>\<rfloor> - 52) (- 1074)"
  have "log 2 \<bar>x\<bar> < of_int (53 + int k)"
    using lt ax by (simp add: log_less_iff)
  then have "\<lfloor>log 2 \<bar>x\<bar>\<rfloor> < 53 + int k" by (simp add: floor_less_iff)
  then have ek: "e \<le> int k" by (simp add: e_def)
  define n where "n = nat (int k - e)"
  have n: "int n = int k - e" using ek by (simp add: n_def)
  have pe: "(2::real) ^ k = 2 ^ n * 2 powr (of_int e)"
  proof -
    have "(2::real) ^ k = 2 powr (of_int (int k))" by (simp add: powr_realpow)
    also have "int k = int n + e" using n by simp
    also have "(2::real) powr (of_int (int n + e)) = 2 powr (of_int (int n)) * 2 powr (of_int e)"
      by (simp add: powr_add)
    also have "(2::real) powr (of_int (int n)) = 2 ^ n" by (simp add: powr_realpow)
    finally show ?thesis .
  qed
  have q: "x / 2 powr (of_int e) = of_int (m * 2 ^ n)"
    by (simp add: x_def pe)
  have "round53 x = of_int (roundTiesToEven (x / 2 powr of_int e)) * 2 powr of_int e"
    using x0 by (simp add: round53_def e_def Let_def)
  also have "\<dots> = of_int (m * 2 ^ n) * 2 powr of_int e"
    by (simp only: q roundTiesToEven_of_int)
  also have "\<dots> = x" by (simp add: x_def pe)
  finally show ?thesis by (simp add: x_def)
qed

lemma chain_upper:
  fixes x y b u :: real
  assumes "\<bar>y - x\<bar> \<le> u * x" and "x \<le> b" and "0 \<le> u"
  shows "y \<le> (1 + u) * b"
proof -
  have "y \<le> x + u * x" using assms(1) by (simp add: abs_le_iff)
  also have "\<dots> = (1 + u) * x" by (simp add: algebra_simps)
  also have "\<dots> \<le> (1 + u) * b" using assms(2,3) by (intro mult_left_mono) auto
  finally show ?thesis .
qed

lemma chain_lower:
  fixes x y b u :: real
  assumes "\<bar>y - x\<bar> \<le> u * x" and "b \<le> x" and "0 \<le> u" and "u \<le> 1"
  shows "(1 - u) * b \<le> y"
proof -
  have "(1 - u) * b \<le> (1 - u) * x" using assms(2,4) by (intro mult_left_mono) auto
  also have "\<dots> = x - u * x" by (simp add: algebra_simps)
  also have "\<dots> \<le> y" using assms(1) by (simp add: abs_le_iff)
  finally show ?thesis .
qed

lemma recombine_error:
  fixes q r D q' r' t s u :: real
  assumes u: "0 \<le> u" "u \<le> 1"
    and D: "0 < D" and q: "0 \<le> q" and r: "0 \<le> r"
    and eq: "\<bar>q' - q\<bar> \<le> u * q"
    and er: "\<bar>r' - r\<bar> \<le> u * r"
    and et: "\<bar>t - r' / D\<bar> \<le> u * (r' / D)"
    and es: "\<bar>s - (q' + t)\<bar> \<le> u * (q' + t)"
  shows "(1 - u) ^ 3 * (q + r / D) \<le> s \<and> s \<le> (1 + u) ^ 3 * (q + r / D) \<and>
         (1 - u) ^ 2 * (q + r / D) \<le> q' + t \<and> q' + t \<le> (1 + u) ^ 2 * (q + r / D) \<and>
         (1 - u) * (r / D) \<le> r' / D \<and> r' / D \<le> (1 + u) * (r / D)"
proof -
  define a where "a = r / D"
  have a0: "0 \<le> a" using r D by (simp add: a_def)
  have u1: "0 \<le> 1 - u" "1 \<le> 1 + u" "0 \<le> 1 + u" using u by auto
  have r'u: "r' \<le> (1 + u) * r" using chain_upper[OF er _ u(1), of r] by simp
  have r'l: "(1 - u) * r \<le> r'" using chain_lower[OF er _ u, of r] by simp
  have rdu: "r' / D \<le> (1 + u) * a"
    using divide_right_mono[OF r'u, of D] D by (simp add: a_def)
  have rdl: "(1 - u) * a \<le> r' / D"
    using divide_right_mono[OF r'l, of D] D by (simp add: a_def)
  have tu: "t \<le> (1 + u) * ((1 + u) * a)" by (rule chain_upper[OF et rdu u(1)])
  have tl: "(1 - u) * ((1 - u) * a) \<le> t" by (rule chain_lower[OF et rdl u])
  have q'u: "q' \<le> (1 + u) * q" using chain_upper[OF eq _ u(1), of q] by simp
  have q'l: "(1 - u) * q \<le> q'" using chain_lower[OF eq _ u, of q] by simp
  have "(1 + u) * q \<le> (1 + u) * ((1 + u) * q)"
    using mult_left_mono[of q "(1 + u) * q" "1 + u"] q u1 mult_right_mono[of 1 "1 + u" q] by simp
  with q'u have q'u2: "q' \<le> (1 + u) * ((1 + u) * q)" by linarith
  have "(1 - u) * ((1 - u) * q) \<le> (1 - u) * q"
    using mult_left_mono[of "(1 - u) * q" q "1 - u"] q u1 u mult_right_mono[of "1 - u" 1 q] by simp
  with q'l have q'l2: "(1 - u) * ((1 - u) * q) \<le> q'" by linarith
  have su0: "q' + t \<le> (1 + u) * ((1 + u) * (q + a))"
    using q'u2 tu by (simp add: algebra_simps)
  have sl0: "(1 - u) * ((1 - u) * (q + a)) \<le> q' + t"
    using q'l2 tl by (simp add: algebra_simps)
  have su: "s \<le> (1 + u) * ((1 + u) * ((1 + u) * (q + a)))" by (rule chain_upper[OF es su0 u(1)])
  have sl: "(1 - u) * ((1 - u) * ((1 - u) * (q + a))) \<le> s" by (rule chain_lower[OF es sl0 u])
  show ?thesis
    using su sl su0 sl0 rdu rdl
    by (simp add: a_def power3_eq_cube power2_eq_square mult.assoc)
qed

lemma cube_bounds:
  fixes u X :: real
  assumes "0 \<le> u" and "u \<le> 1 / 4" and "0 \<le> X"
    and "(1 - u) ^ 3 * X \<le> s" and "s \<le> (1 + u) ^ 3 * X"
  shows "\<bar>s - X\<bar> \<le> 4 * u * X"
proof -
  define a where "a = u * u"
  define b where "b = u * u * u"
  have uu: "a \<le> u / 4" unfolding a_def using assms(1,2) mult_left_mono[of u "1/4" u] by simp
  have a0: "0 \<le> a" unfolding a_def using assms(1) by simp
  have uuu: "b \<le> u / 16"
    using mult_mono[of "u * u" "u / 4" u "1 / 4"] assms(1,2) uu by (simp add: a_def b_def)
  have b0: "0 \<le> b" unfolding b_def using assms(1) by simp
  have e1: "(1 + u) ^ 3 = 1 + 3 * u + 3 * a + b"
    by (simp add: power3_eq_cube algebra_simps a_def b_def)
  have e2: "(1 - u) ^ 3 = 1 - 3 * u + 3 * a - b"
    by (simp add: power3_eq_cube algebra_simps a_def b_def)
  have up: "(1 + u) ^ 3 \<le> 1 + 4 * u" unfolding e1 using uu uuu assms(1) by linarith
  have lo: "1 - 4 * u \<le> (1 - u) ^ 3" unfolding e2 using uu uuu a0 b0 assms(1) by linarith
  have "s \<le> (1 + 4 * u) * X"
    using mult_right_mono[OF up assms(3)] assms(5) by linarith
  moreover have "(1 - 4 * u) * X \<le> s"
    using mult_right_mono[OF lo assms(3)] assms(4) by linarith
  ultimately show ?thesis by (simp add: abs_le_iff algebra_simps)
qed

lemma small_normal: "2 powr (- 1022) \<le> (1 / 2 ^ 80 :: real)"
proof -
  have "(2::real) powr (- 1022) \<le> 2 powr (- 80)" by (simp add: powr_le_cancel_iff)
  also have "(2::real) powr (- 80) = 1 / 2 ^ 80"
    by (simp add: powr_minus powr_numeral[symmetric] field_simps del: powr_numeral)
  finally show ?thesis .
qed

lemma pow10_exact:
  assumes "d \<le> 22"
  shows "round53 (10 ^ d) = 10 ^ d"
proof -
  have "(5::int) ^ d \<le> 5 ^ 22" using assms by (intro power_increasing) auto
  also have "\<dots> < 2 ^ 53" by simp
  finally have "\<bar>(5::int) ^ d\<bar> < 2 ^ 53" by simp
  from round53_exact[OF this, of d] have "round53 (5 ^ d * 2 ^ d) = 5 ^ d * 2 ^ d" by simp
  moreover have "(5::real) ^ d * 2 ^ d = 10 ^ d" by (simp add: power_mult_distrib[symmetric])
  ultimately show ?thesis by simp
qed

lemma pow10_bounds:
  assumes "d \<le> 22"
  shows "(10::real) ^ d \<le> 10 ^ 22" "(10::real) ^ d < 2 ^ 1022"
    "(10::real) ^ d \<le> 2 ^ 80 / 4" "(10::real) ^ d \<le> 2 ^ 80 / 2"
proof -
  show a: "(10::real) ^ d \<le> 10 ^ 22" using assms by (intro power_increasing) auto
  have b: "(10::real) ^ 22 \<le> 2 ^ 80 / 4" by simp
  show c: "(10::real) ^ d \<le> 2 ^ 80 / 4" by (rule order_trans[OF a b])
  have "(2::real) ^ 80 / 4 \<le> 2 ^ 80 / 2" by simp
  then show e: "(10::real) ^ d \<le> 2 ^ 80 / 2" by (rule order_trans[OF c])
  have "(2::real) ^ 80 / 2 < 2 ^ 80" by simp
  moreover have "(2::real) ^ 80 \<le> 2 ^ 1022" by (intro power_increasing) auto
  ultimately have "(2::real) ^ 80 / 2 < 2 ^ 1022" by (rule less_le_trans)
  then show "(10::real) ^ d < 2 ^ 1022" by (rule le_less_trans[OF e])
qed

lemma toDouble_pow10:
  assumes "d \<le> 22"
  shows "toDouble (10 ^ d) = Finite (10 ^ d)"
proof -
  have "(2::real) ^ 1022 \<le> 2 ^ 1024" by (intro power_increasing) auto
  then have "(10::real) ^ d < 2 ^ 1024" using pow10_bounds(2)[OF assms] by (rule less_le_trans[rotated])
  moreover have "\<not> (10::real) ^ d \<le> - (2 ^ 1024)"
  proof -
    have "- (2 ^ 1024) < (0::real)" by simp
    moreover have "(0::real) \<le> 10 ^ d" by simp
    ultimately show ?thesis by linarith
  qed
  ultimately show ?thesis by (simp add: toDouble_def pow10_exact[OF assms])
qed

lemma js_pow10_exact:
  assumes "0 \<le> decimals" and "decimals \<le> 22"
  shows "js_pow10 decimals = Finite (10 ^ nat decimals)"
proof -
  have "(10::real) powr of_int decimals = 10 ^ nat decimals"
    using assms(1) by (simp add: powr_real_of_int)
  then show ?thesis using toDouble_pow10[of "nat decimals"] assms by (simp add: js_pow10_def)
qed

lemma BigInt_of_number_int: "BigInt_of_number (Finite (of_int n)) = Some n"
  by (simp add: BigInt_of_number_def)

lemma bigint_div_rem_nonneg:
  assumes "0 \<le> a" and "0 < b"
  shows "bigint_div a b = a div b" and "bigint_rem a b = a mod b"
proof -
  show d: "bigint_div a b = a div b"
    using assms by (cases "a = 0") (simp_all add: bigint_div_def)
  show "bigint_rem a b = a mod b"
    unfolding bigint_rem_def d by (simp add: minus_mult_div_eq_mod)
qed

lemma floor_log2_pow10_23: "\<lfloor>log 2 \<bar>(10::real) ^ 23\<bar>\<rfloor> = 76"
proof -
  have "(2::real) powr (of_int 76) \<le> 10 ^ 23 \<and> (10::real) ^ 23 < 2 powr (of_int (76 + 1))"
    by simp
  then have "\<lfloor>log 2 ((10::real) ^ 23)\<rfloor> = 76"
    by (subst floor_log_eq_powr_iff) simp_all
  then show ?thesis by simp
qed

lemma round53_pow10_23: "round53 (10 ^ 23) = 99999999999999991611392"
proof -
  have q: "(10::real) ^ 23 / 2 powr (of_int 24) = 11920928955078125 / 2" by simp
  have r: "roundTiesToEven (11920928955078125 / 2) = 5960464477539062"
    by (simp add: roundTiesToEven_def Let_def)
  have "round53 (10 ^ 23) = of_int (roundTiesToEven ((10::real) ^ 23 / 2 powr (of_int 24))) * 2 powr (of_int 24)"
    unfolding round53_def floor_log2_pow10_23 by (simp add: Let_def)
  also have "\<dots> = of_int 5960464477539062 * 2 powr (of_int 24)"
    unfolding q r ..
  also have "\<dots> = 99999999999999991611392" by simp
  finally show ?thesis .
qed

lemma js_pow10_23_value: "js_pow10 23 = Finite 99999999999999991611392"
proof -
  have p: "(10::real) powr of_int 23 = 10 ^ 23" by simp
  have "(99999999999999991611392::real) < 2 ^ 80" by simp
  also have "(2::real) ^ 80 \<le> 2 ^ 1024" by (intro power_increasing) auto
  finally have lt: "(99999999999999991611392::real) < 2 ^ 1024" .
  have "toDouble (10 ^ 23) = Finite 99999999999999991611392"
    unfolding toDouble_def round53_pow10_23 Let_def using lt by simp
  then show ?thesis unfolding js_pow10_def p .
qed

lemma js_pow10_23: "BigInt_of_number (js_pow10 23) = Some 99999999999999991611392"
proof -
  have "BigInt_of_number (Finite (of_int 99999999999999991611392)) = Some 99999999999999991611392"
    by (rule BigInt_of_number_int)
  then show ?thesis unfolding js_pow10_23_value by simp
qed

lemma round53_small:
  assumes "0 \<le> x" and "x \<le> 1 / 10"
  shows "0 \<le> round53 x \<and> round53 x < 1"
proof (cases "x = 0")
  case True
  then show ?thesis by (simp add: round53_def)
next
  case False
  then have x0: "0 < x" using assms(1) by simp
  define f where "f = \<lfloor>log 2 \<bar>x\<bar>\<rfloor>"
  define e where "e = max (f - 52) (- 1074)"
  define p where "p = 2 powr (of_int e :: real)"
  have p0: "0 < p" by (simp add: p_def)
  have r: "round53 x = of_int (roundTiesToEven (x / p)) * p"
    using False by (simp add: round53_def e_def f_def p_def Let_def)
  have "log 2 \<bar>x\<bar> < 0" using x0 assms(2) by (simp add: log_less_iff)
  then have "f < 0" unfolding f_def by (simp add: floor_less_iff)
  then have "e \<le> - 1" by (simp add: e_def)
  then have "(of_int e :: real) \<le> of_int (- 1)" by (simp only: of_int_le_iff)
  then have "(of_int e :: real) \<le> - 1" by simp
  then have "(2::real) powr of_int e \<le> 2 powr (- 1)" by (intro powr_mono) simp_all
  also have "(2::real) powr (- 1) = 1 / 2" by (simp add: powr_minus_divide)
  finally have p1: "p \<le> 1 / 2" by (simp add: p_def)
  have "round53 x - x = (of_int (roundTiesToEven (x / p)) - x / p) * p"
    using p0 by (simp add: r field_simps)
  then have "\<bar>round53 x - x\<bar> = \<bar>of_int (roundTiesToEven (x / p)) - x / p\<bar> * p"
    using p0 by (simp only: abs_mult abs_of_pos)
  also have "\<dots> \<le> 1 / 2 * p"
    using roundTiesToEven_err[of "x / p"] p0 by (intro mult_right_mono) auto
  also have "\<dots> \<le> 1 / 2 * (1 / 2)" using p1 by (intro mult_left_mono) auto
  finally have "\<bar>round53 x - x\<bar> \<le> 1 / 4" by simp
  then have "round53 x < 1" using assms(2) by linarith
  then show ?thesis using round53_nonneg[OF assms(1)] by simp
qed

lemma roundTiesToEven_ge: "of_int n \<le> q \<Longrightarrow> n \<le> roundTiesToEven q"
proof -
  assume "of_int n \<le> q"
  then have "n \<le> \<lfloor>q\<rfloor>" by (simp add: le_floor_iff)
  moreover have "\<lfloor>q\<rfloor> \<le> roundTiesToEven q"
    by (simp add: roundTiesToEven_def Let_def)
  ultimately show ?thesis by linarith
qed

lemma roundTiesToEven_half_up:
  assumes "even n" and "of_int n - 1 / 2 \<le> q"
  shows "n \<le> roundTiesToEven q"
proof (cases "of_int n \<le> q")
  case True
  then show ?thesis by (rule roundTiesToEven_ge)
next
  case False
  then have "q < of_int n" by simp
  then have f1: "\<lfloor>q\<rfloor> < n" by (simp add: floor_less_iff)
  have "of_int (n - 1) \<le> q" using assms(2) by simp
  then have f2: "n - 1 \<le> \<lfloor>q\<rfloor>" by (simp only: le_floor_iff)
  from f1 f2 have f: "\<lfloor>q\<rfloor> = n - 1" by linarith
  have odd: "\<not> even (n - 1)" using assms(1) by simp
  have fr: "1 / 2 \<le> q - of_int (n - 1)" using assms(2) by simp
  show ?thesis
    unfolding roundTiesToEven_def Let_def f using odd fr by auto
qed

lemma roundTiesToEven_half_down:
  assumes "q < of_int n - 1 / 2"
  shows "roundTiesToEven q \<le> n - 1"
proof -
  have "q < of_int n" using assms by simp
  then have f1: "\<lfloor>q\<rfloor> < n" by (simp add: floor_less_iff)
  show ?thesis
  proof (cases "\<lfloor>q\<rfloor> = n - 1")
    case True
    have "q - of_int (n - 1) < 1 / 2" using assms by simp
    then show ?thesis unfolding roundTiesToEven_def Let_def True by simp
  next
    case False
    with f1 have "\<lfloor>q\<rfloor> + 1 \<le> n - 1" by linarith
    moreover have "roundTiesToEven q \<le> \<lfloor>q\<rfloor> + 1"
      by (simp add: roundTiesToEven_def Let_def)
    ultimately show ?thesis by linarith
  qed
qed

lemma round53_binade:
  assumes "0 < x" and "2 powr of_int f \<le> x" and "x < 2 powr of_int (f + 1)" and "- 1022 \<le> f"
  shows "round53 x = of_int (roundTiesToEven (x / 2 powr of_int (f - 52))) * 2 powr of_int (f - 52)"
proof -
  have "\<lfloor>log 2 x\<rfloor> = f"
    using assms(1-3) by (subst floor_log_eq_powr_iff) simp_all
  then have fl: "\<lfloor>log 2 \<bar>x\<bar>\<rfloor> = f" using assms(1) by simp
  have m: "max (f - 52) (- 1074) = f - 52" using assms(4) by simp
  show ?thesis
    using assms(1) unfolding round53_def fl Let_def m by simp
qed

lemma floor_log2_bounds:
  assumes "0 < x"
  shows "2 powr of_int \<lfloor>log 2 x\<rfloor> \<le> x" and "x < 2 powr of_int (\<lfloor>log 2 x\<rfloor> + 1)"
proof -
  have "2 powr of_int \<lfloor>log 2 x\<rfloor> \<le> x \<and> x < 2 powr of_int (\<lfloor>log 2 x\<rfloor> + 1)"
    using assms floor_log_eq_powr_iff[of x 2 "\<lfloor>log 2 x\<rfloor>"] by simp
  then show "2 powr of_int \<lfloor>log 2 x\<rfloor> \<le> x" and "x < 2 powr of_int (\<lfloor>log 2 x\<rfloor> + 1)"
    by simp_all
qed

lemma pow2_971: "(2::real) powr of_int (1023 - 52) = 2 ^ 971"
  by simp


lemma round53_top_binade:
  assumes "2 ^ 1023 \<le> x" and "x < 2 ^ 1024"
  shows "round53 x = of_int (roundTiesToEven (x / 2 ^ 971)) * 2 ^ 971"
proof -
  have x0: "0 < x"
  proof -
    have "(0::real) < 2 ^ 1023" by simp
    then show ?thesis using assms(1) by linarith
  qed
  have a: "2 powr of_int 1023 \<le> x" using assms(1) by simp
  have b: "x < 2 powr of_int (1023 + 1)" using assms(2) by simp
  have "round53 x = of_int (roundTiesToEven (x / 2 powr of_int (1023 - 52))) * 2 powr of_int (1023 - 52)"
    by (rule round53_binade[OF x0 a b]) simp
  then show ?thesis unfolding pow2_971 .
qed

lemma threshold_split:
  "overflowThreshold = (2 ^ 53 - 1 / 2) * 2 ^ 971"
  "maxDouble = (2 ^ 53 - 1) * 2 ^ 971"
  "(2::real) ^ 1024 = 2 ^ 53 * 2 ^ 971"
  "(2::real) ^ 1023 \<le> overflowThreshold"
  "overflowThreshold < 2 ^ 1024"
  "maxDouble < overflowThreshold"
  "(2::real) ^ 1023 + 2 ^ 970 \<le> maxDouble"
  "maxDouble + 4 < overflowThreshold"
  "1 \<le> maxDouble"
  by (simp_all add: overflowThreshold_def maxDouble_def)

lemma round53_overflow:
  assumes "overflowThreshold \<le> x"
  shows "2 ^ 1024 \<le> round53 x"
proof (cases "x < 2 ^ 1024")
  case True
  have lo: "2 ^ 1023 \<le> x" using assms threshold_split(4) by linarith
  note r = round53_top_binade[OF lo True]
  have "(2 ^ 53 - 1 / 2) * 2 ^ 971 \<le> x" using assms unfolding threshold_split(1) .
  then have "2 ^ 53 - 1 / 2 \<le> x / 2 ^ 971" by (simp add: pos_le_divide_eq)
  then have "of_int (2 ^ 53) - 1 / 2 \<le> x / 2 ^ 971" by simp
  moreover have "even ((2::int) ^ 53)" by simp
  ultimately have "2 ^ 53 \<le> roundTiesToEven (x / 2 ^ 971)"
    by (rule roundTiesToEven_half_up[rotated])
  then have "(of_int (2 ^ 53) :: real) \<le> of_int (roundTiesToEven (x / 2 ^ 971))"
    by (simp only: of_int_le_iff)
  then have "(2 ^ 53 :: real) * 2 ^ 971 \<le> of_int (roundTiesToEven (x / 2 ^ 971)) * 2 ^ 971"
    by (intro mult_right_mono) simp_all
  then show ?thesis unfolding r threshold_split(3) .
next
  case False
  then have big: "2 ^ 1024 \<le> x" by simp
  have x0: "0 < x"
  proof -
    have "(0::real) < 2 ^ 1024" by simp
    then show ?thesis using big by linarith
  qed
  define f where "f = \<lfloor>log 2 x\<rfloor>"
  note b = floor_log2_bounds[OF x0, folded f_def]
  have "1024 \<le> log 2 x" using x0 big by (simp add: le_log_iff)
  then have f_ge: "1024 \<le> f" unfolding f_def by (simp add: le_floor_iff)
  then have f_ge': "- 1022 \<le> f" by simp
  define p where "p = 2 powr (of_int (f - 52) :: real)"
  have p0: "0 < p" by (simp add: p_def)
  have r: "round53 x = of_int (roundTiesToEven (x / p)) * p"
    unfolding p_def by (rule round53_binade[OF x0 b f_ge'])
  have pf: "2 powr of_int f = 2 ^ 52 * p"
  proof -
    have "(2::real) powr of_int f = 2 powr (of_int 52 + of_int (f - 52))" by simp
    also have "\<dots> = 2 powr (of_int 52) * 2 powr (of_int (f - 52))" by (simp only: powr_add)
    also have "(2::real) powr (of_int 52) = 2 ^ 52" by simp
    finally show ?thesis by (simp add: p_def)
  qed
  have "2 ^ 52 * p \<le> x" using b(1) unfolding pf .
  then have "2 ^ 52 \<le> x / p" using p0 by (simp add: pos_le_divide_eq)
  then have "of_int (2 ^ 52) \<le> x / p" by simp
  then have "2 ^ 52 \<le> roundTiesToEven (x / p)" by (rule roundTiesToEven_ge)
  then have "(of_int (2 ^ 52) :: real) \<le> of_int (roundTiesToEven (x / p))"
    by (simp only: of_int_le_iff)
  then have "(2 ^ 52 :: real) * p \<le> of_int (roundTiesToEven (x / p)) * p"
    using p0 by (intro mult_right_mono) simp_all
  then have "2 powr of_int f \<le> round53 x" unfolding r pf .
  moreover have "(2::real) powr 1024 \<le> 2 powr of_int f"
  proof -
    have "(of_int 1024 :: real) \<le> of_int f" using f_ge by (simp only: of_int_le_iff)
    then show ?thesis by (intro powr_mono) simp_all
  qed
  moreover have "(2::real) powr 1024 = 2 ^ 1024" by simp
  ultimately show ?thesis by linarith
qed

lemma round53_le_max:
  assumes "0 \<le> x" and "x < overflowThreshold"
  shows "round53 x \<le> maxDouble"
proof -
  consider "x \<le> 1 / 10" | "1 / 10 < x" "x < 2 ^ 1023" | "2 ^ 1023 \<le> x" by linarith
  then show ?thesis
  proof cases
    case 1
    from round53_small[OF assms(1) 1] have "round53 x < 1" by simp
    then show ?thesis using threshold_split(9) by linarith
  next
    case 2
    have "(1 / 2 ^ 80 :: real) \<le> 1 / 10" by simp
    then have "2 powr (- 1022) \<le> \<bar>x\<bar>" using small_normal 2(1) by simp
    from round53_error[OF this] have "\<bar>round53 x - x\<bar> \<le> x / 2 ^ 53" using 2(1) by simp
    then have "round53 x \<le> x + x / 2 ^ 53" by linarith
    moreover have "x / 2 ^ 53 \<le> 2 ^ 1023 / 2 ^ 53" using 2(2) by (intro divide_right_mono) simp_all
    moreover have "(2::real) ^ 1023 / 2 ^ 53 = 2 ^ 970" by simp
    ultimately have "round53 x \<le> 2 ^ 1023 + 2 ^ 970" using 2(2) by linarith
    then show ?thesis using threshold_split(7) by linarith
  next
    case 3
    have lt: "x < 2 ^ 1024" using assms(2) threshold_split(5) by linarith
    note r = round53_top_binade[OF 3 lt]
    have "x < (2 ^ 53 - 1 / 2) * 2 ^ 971" using assms(2) unfolding threshold_split(1) .
    then have "x / 2 ^ 971 < 2 ^ 53 - 1 / 2" by (simp add: pos_divide_less_eq)
    then have "x / 2 ^ 971 < of_int (2 ^ 53) - 1 / 2" by simp
    then have "roundTiesToEven (x / 2 ^ 971) \<le> 2 ^ 53 - 1" by (rule roundTiesToEven_half_down)
    then have "(of_int (roundTiesToEven (x / 2 ^ 971)) :: real) \<le> of_int (2 ^ 53 - 1)"
      by (simp only: of_int_le_iff)
    then have "(of_int (roundTiesToEven (x / 2 ^ 971)) :: real) \<le> 2 ^ 53 - 1" by simp
    then have "of_int (roundTiesToEven (x / 2 ^ 971)) * 2 ^ 971 \<le> (2 ^ 53 - 1) * (2 ^ 971 :: real)"
      by (intro mult_right_mono) simp_all
    then show ?thesis unfolding r threshold_split(2) .
  qed
qed

lemma toDouble_below_threshold:
  assumes "0 \<le> x" and "x < overflowThreshold"
  shows "toDouble x = Finite (round53 x)" and "0 \<le> round53 x" and "round53 x \<le> maxDouble"
proof -
  show m: "round53 x \<le> maxDouble" by (rule round53_le_max[OF assms])
  show n: "0 \<le> round53 x" by (rule round53_nonneg[OF assms(1)])
  have "maxDouble < 2 ^ 1024" using threshold_split(5,6) by linarith
  then have lt: "round53 x < 2 ^ 1024" using m by linarith
  have "- (2 ^ 1024) < (0::real)" by simp
  with n have "\<not> round53 x \<le> - (2 ^ 1024)" by linarith
  then show "toDouble x = Finite (round53 x)" using lt by (simp add: toDouble_def Let_def)
qed

lemma toDouble_at_threshold:
  assumes "overflowThreshold \<le> x"
  shows "toDouble x = PlusInfinity"
  using round53_overflow[OF assms] by (simp add: toDouble_def Let_def)

lemma double_below_threshold:
  assumes "toDouble x = Finite x"
  shows "x < overflowThreshold"
proof (rule ccontr)
  assume "\<not> x < overflowThreshold"
  then have "overflowThreshold \<le> x" by simp
  from toDouble_at_threshold[OF this] show False using assms by simp
qed

lemma round53_error_low:
  assumes "2 powr (- 1026) \<le> x"
  shows "\<bar>round53 x - x\<bar> \<le> x / 2 ^ 49"
proof (cases "2 powr (- 1022) \<le> x")
  case True
  have x0: "0 < x"
  proof -
    have "(0::real) < 2 powr (- 1022)" by simp
    then show ?thesis using True by linarith
  qed
  have "2 powr (- 1022) \<le> \<bar>x\<bar>" using True x0 by simp
  from round53_error[OF this] have "\<bar>round53 x - x\<bar> \<le> x / 2 ^ 53" using x0 by simp
  moreover have "x / 2 ^ 53 \<le> x / 2 ^ 49" using x0 by (intro divide_left_mono) simp_all
  ultimately show ?thesis by linarith
next
  case False
  then have lt: "x < 2 powr (- 1022)" by simp
  have x0: "0 < x"
  proof -
    have "(0::real) < 2 powr (- 1026)" by simp
    then show ?thesis using assms by linarith
  qed
  define f where "f = \<lfloor>log 2 \<bar>x\<bar>\<rfloor>"
  have "log 2 x < - 1022" using x0 lt by (simp add: log_less_iff)
  then have "f < - 1022" unfolding f_def using x0 by (simp add: floor_less_iff)
  then have e: "max (f - 52) (- 1074) = - 1074" by simp
  define p where "p = 2 powr (of_int (- 1074) :: real)"
  have p0: "0 < p" by (simp add: p_def)
  have r: "round53 x = of_int (roundTiesToEven (x / p)) * p"
    using x0 unfolding round53_def f_def[symmetric] Let_def e p_def by simp
  have "round53 x - x = (of_int (roundTiesToEven (x / p)) - x / p) * p"
    using p0 by (simp add: r field_simps)
  then have "\<bar>round53 x - x\<bar> = \<bar>of_int (roundTiesToEven (x / p)) - x / p\<bar> * p"
    using p0 by (simp only: abs_mult abs_of_pos)
  also have "\<dots> \<le> 1 / 2 * p"
    using roundTiesToEven_err[of "x / p"] p0 by (intro mult_right_mono) auto
  also have "1 / 2 * p = 2 powr (- 1026) / 2 ^ 49"
  proof -
    have "(2::real) powr (- 1026) = 2 powr (of_int (- 1074) + of_int 48)" by simp
    also have "\<dots> = 2 powr (of_int (- 1074)) * 2 powr (of_int 48)" by (simp only: powr_add)
    also have "(2::real) powr (of_int 48) = 2 ^ 48" by simp
    finally show ?thesis by (simp add: p_def)
  qed
  also have "\<dots> \<le> x / 2 ^ 49" using assms by (intro divide_right_mono) simp_all
  finally show ?thesis .
qed

lemma recombine_double:
  fixes q r D :: int and u lo :: real
  assumes u: "0 \<le> u" "u \<le> 1 / 4"
    and rnd: "\<And>x. 0 \<le> x \<Longrightarrow> x = 0 \<or> lo \<le> x \<Longrightarrow> \<bar>round53 x - x\<bar> \<le> u * x"
    and lo: "lo \<le> 1" "lo * (4 * of_int D) \<le> 1"
    and D: "0 < D" "toDouble (of_int D) = Finite (of_int D)"
    and q: "0 \<le> q" "of_int q < overflowThreshold"
    and r: "0 \<le> r" "r < D"
  shows "\<exists>s. fadd (Number_of_BigInt q) (fdiv (Number_of_BigInt r) (Number_of_BigInt D)) = Finite s \<and>
             \<bar>s - (of_int q + of_int r / of_int D)\<bar> \<le> 4 * u * (of_int q + of_int r / of_int D)"
proof -
  define X :: real where "X = of_int q + of_int r / of_int D"
  have u1: "u \<le> 1" using u(2) by simp
  have DrPos: "(0::real) < of_int D" using D(1) by simp
  have D1: "(1::real) \<le> of_int D" using D(1) by simp
  have Dlt: "(of_int D :: real) < overflowThreshold" by (rule double_below_threshold[OF D(2)])
  have loD: "lo \<le> 1 / (4 * of_int D)"
    using lo(2) DrPos by (simp add: pos_le_divide_eq)
  have intnorm: "(of_int n :: real) = 0 \<or> lo \<le> of_int n" if "0 \<le> n" for n :: int
  proof (cases "n = 0")
    case True then show ?thesis by simp
  next
    case False
    then have "(1::real) \<le> of_int n" using that by simp
    then show ?thesis using lo(1) by linarith
  qed
  have q0: "(0::real) \<le> of_int q" using q(1) by simp
  have r0: "(0::real) \<le> of_int r" using r(1) by simp
  have X0: "0 \<le> X" unfolding X_def using q0 r0 DrPos by simp
  \<comment> \<open>Number(quotient)\<close>
  define q' where "q' = round53 (of_int q)"
  note tq = toDouble_below_threshold[OF q0 q(2), folded q'_def]
  have Nq: "Number_of_BigInt q = Finite q'" using tq(1) by (simp add: Number_of_BigInt_def)
  have eq: "\<bar>q' - of_int q\<bar> \<le> u * of_int q"
    unfolding q'_def by (rule rnd[OF q0 intnorm[OF q(1)]])
  \<comment> \<open>Number(remainder)\<close>
  have rD: "(of_int r :: real) < of_int D" using r(2) by simp
  then have rlt: "(of_int r :: real) < overflowThreshold" using Dlt by linarith
  define r' where "r' = round53 (of_int r)"
  note tr = toDouble_below_threshold[OF r0 rlt, folded r'_def]
  have Nr: "Number_of_BigInt r = Finite r'" using tr(1) by (simp add: Number_of_BigInt_def)
  have er: "\<bar>r' - of_int r\<bar> \<le> u * of_int r"
    unfolding r'_def by (rule rnd[OF r0 intnorm[OF r(1)]])
  have ND: "Number_of_BigInt D = Finite (of_int D)" using D(2) by (simp add: Number_of_BigInt_def)
  \<comment> \<open>Number(remainder) / Number(divisor)\<close>
  have r'u: "r' \<le> (1 + u) * of_int r" using chain_upper[OF er _ u(1)] by simp
  have r'l: "(1 - u) * of_int r \<le> r'" using chain_lower[OF er _ u(1) u1] by simp
  define t0 where "t0 = r' / of_int D"
  have t00: "0 \<le> t0" unfolding t0_def using tr(2) DrPos by simp
  have t0r: "t0 \<le> r'"
  proof -
    have "r' / of_int D \<le> r' / 1" using tr(2) D1 by (intro divide_left_mono) simp_all
    then show ?thesis by (simp add: t0_def)
  qed
  have t0lt: "t0 < overflowThreshold" using t0r tr(3) threshold_split(6) by linarith
  have t02: "t0 \<le> 2"
  proof -
    have "(1 + u) * of_int r \<le> 2 * of_int r"
      using u r0 by (intro mult_right_mono) simp_all
    then have "r' \<le> 2 * of_int r" using r'u by linarith
    also have "\<dots> \<le> 2 * of_int D" using rD by simp
    finally show ?thesis unfolding t0_def using DrPos by (simp add: pos_divide_le_eq)
  qed
  have tnorm: "t0 = 0 \<or> lo \<le> t0"
  proof (cases "r = 0")
    case True
    then have "r' = 0" using er by simp
    then show ?thesis by (simp add: t0_def)
  next
    case False
    then have "(1::real) \<le> of_int r" using r(1) by simp
    moreover have "1 / 2 \<le> 1 - u" using u(2) by simp
    ultimately have "1 / 2 * 1 \<le> (1 - u) * of_int r" by (intro mult_mono) simp_all
    then have h: "1 / 2 \<le> r'" using r'l by linarith
    have "1 / (4 * of_int D) \<le> (1 / 2) / (of_int D :: real)"
      using DrPos by (simp add: field_simps)
    also have "\<dots> \<le> r' / of_int D" using h DrPos by (intro divide_right_mono) simp_all
    finally show ?thesis using loD by (simp add: t0_def)
  qed
  define t where "t = round53 t0"
  note tt = toDouble_below_threshold[OF t00 t0lt, folded t_def]
  have et: "\<bar>t - r' / of_int D\<bar> \<le> u * (r' / of_int D)"
    using rnd[OF t00 tnorm] by (simp add: t_def t0_def)
  have fd: "fdiv (Number_of_BigInt r) (Number_of_BigInt D) = Finite t"
    using Nr ND tt(1) DrPos by (simp add: t0_def)
  \<comment> \<open>Number(quotient) + ...\<close>
  have bnd: "\<And>s. \<bar>s - (q' + t)\<bar> \<le> u * (q' + t) \<Longrightarrow>
       (1 - u) ^ 3 * X \<le> s \<and> s \<le> (1 + u) ^ 3 * X \<and>
       (1 - u) ^ 2 * X \<le> q' + t \<and> q' + t \<le> (1 + u) ^ 2 * X"
    unfolding X_def
    using recombine_error[OF u(1) u1 DrPos q0 r0 eq er et] by simp
  have self: "\<bar>(q' + t) - (q' + t)\<bar> \<le> u * (q' + t)" using u(1) tq(2) tt(2) by simp
  from bnd[OF self] have lo2: "(1 - u) ^ 2 * X \<le> q' + t" by simp
  have s00: "0 \<le> q' + t" using tq(2) tt(2) by simp
  have t4: "t \<le> 4"
  proof -
    have "t \<le> (1 + u) * 2" using chain_upper[OF _ t02 u(1), of t] et by (simp add: t0_def)
    also have "\<dots> \<le> 4" using u(2) by simp
    finally show ?thesis .
  qed
  have s0lt: "q' + t < overflowThreshold" using tq(3) t4 threshold_split(8) by linarith
  have snorm: "q' + t = 0 \<or> lo \<le> q' + t"
  proof (cases "q = 0 \<and> r = 0")
    case True
    then have "q' = 0" "r' = 0" using eq er by simp_all
    then have "t = 0" by (simp add: t_def t0_def round53_def)
    then show ?thesis using \<open>q' = 0\<close> by simp
  next
    case False
    have XD: "1 / of_int D \<le> X"
    proof (cases "q = 0")
      case True
      then have "r \<noteq> 0" using False by simp
      then have "(1::real) \<le> of_int r" using r(1) by simp
      then have "1 / of_int D \<le> of_int r / (of_int D :: real)"
        using DrPos by (intro divide_right_mono) simp_all
      then show ?thesis using q0 by (simp add: X_def)
    next
      case False
      then have "(1::real) \<le> of_int q" using q(1) by simp
      moreover have "1 / of_int D \<le> (1::real)" using D1 by simp
      moreover have "0 \<le> of_int r / (of_int D :: real)" using r0 DrPos by simp
      ultimately show ?thesis unfolding X_def by linarith
    qed
    have "1 / 2 \<le> 1 - u" using u(2) by simp
    then have "1 / 2 * (1 / 2) \<le> (1 - u) * (1 - u)" by (intro mult_mono) simp_all
    then have "1 / 4 \<le> (1 - u) ^ 2" by (simp add: power2_eq_square)
    moreover have "0 \<le> 1 / (of_int D :: real)" using DrPos by simp
    ultimately have "1 / 4 * (1 / of_int D) \<le> (1 - u) ^ 2 * X"
      using XD by (intro mult_mono) simp_all
    then have "1 / (4 * of_int D) \<le> q' + t" using lo2 by simp
    then show ?thesis using loD by linarith
  qed
  define s where "s = round53 (q' + t)"
  note ts = toDouble_below_threshold[OF s00 s0lt, folded s_def]
  have es: "\<bar>s - (q' + t)\<bar> \<le> u * (q' + t)"
    unfolding s_def by (rule rnd[OF s00 snorm])
  have res: "fadd (Number_of_BigInt q) (fdiv (Number_of_BigInt r) (Number_of_BigInt D)) = Finite s"
    unfolding Nq fd using ts(1) by simp
  have "\<bar>s - X\<bar> \<le> 4 * u * X"
    using bnd[OF es] cube_bounds[OF u(1,2) X0, of s] by blast
  then show ?thesis using res unfolding X_def by blast
qed

lemma remainder_part_finite:
  fixes r D :: int
  assumes D: "0 < D" "toDouble (of_int D) = Finite (of_int D)"
    and r: "0 \<le> r" "r < D"
  shows "\<exists>t. fdiv (Number_of_BigInt r) (Number_of_BigInt D) = Finite t"
proof -
  have DrPos: "(0::real) < of_int D" using D(1) by simp
  have D1: "(1::real) \<le> of_int D" using D(1) by simp
  have Dlt: "(of_int D :: real) < overflowThreshold" by (rule double_below_threshold[OF D(2)])
  have r0: "(0::real) \<le> of_int r" using r(1) by simp
  have "(of_int r :: real) < of_int D" using r(2) by simp
  then have rlt: "(of_int r :: real) < overflowThreshold" using Dlt by linarith
  note tr = toDouble_below_threshold[OF r0 rlt]
  have Nr: "Number_of_BigInt r = Finite (round53 (of_int r))"
    using tr(1) by (simp add: Number_of_BigInt_def)
  have ND: "Number_of_BigInt D = Finite (of_int D)" using D(2) by (simp add: Number_of_BigInt_def)
  define t0 where "t0 = round53 (of_int r) / of_int D"
  have t00: "0 \<le> t0" unfolding t0_def using tr(2) DrPos by simp
  have "round53 (of_int r) / of_int D \<le> round53 (of_int r) / 1"
    using tr(2) D1 by (intro divide_left_mono) simp_all
  then have "t0 \<le> round53 (of_int r)" by (simp add: t0_def)
  then have t0lt: "t0 < overflowThreshold" using tr(3) threshold_split(6) by linarith
  note tt = toDouble_below_threshold[OF t00 t0lt]
  show ?thesis unfolding Nr ND using tt(1) DrPos by (simp add: t0_def)
qed

lemma round53_error_normal:
  assumes "0 \<le> x" and "x = 0 \<or> 2 powr (- 1022) \<le> x"
  shows "\<bar>round53 x - x\<bar> \<le> 1 / 2 ^ 53 * x"
proof (cases "x = 0")
  case True
  then show ?thesis by (simp add: round53_def)
next
  case False
  then have "2 powr (- 1022) \<le> \<bar>x\<bar>" using assms by simp
  from round53_error[OF this] show ?thesis using assms(1) by simp
qed

lemma round53_error_subnormal:
  assumes "0 \<le> x" and "x = 0 \<or> 2 powr (- 1026) \<le> x"
  shows "\<bar>round53 x - x\<bar> \<le> 1 / 2 ^ 49 * x"
proof (cases "x = 0")
  case True
  then show ?thesis by (simp add: round53_def)
next
  case False
  then have "2 powr (- 1026) \<le> x" using assms by simp
  from round53_error_low[OF this] show ?thesis by simp
qed

lemma powr_low_bounds:
  "(2::real) powr (- 1022) \<le> 1" "(2::real) powr (- 1026) \<le> 1"
  "(2::real) powr (- 1022) * (4 * 2 ^ 1020) = 1"
  "(2::real) powr (- 1026) * (4 * 2 ^ 1024) = 1"
proof -
  have a: "(2::real) powr (- 1022) = 1 / 2 ^ 1022"
    by (simp add: powr_minus powr_numeral[symmetric] field_simps del: powr_numeral)
  have b: "(2::real) powr (- 1026) = 1 / 2 ^ 1026"
    by (simp add: powr_minus powr_numeral[symmetric] field_simps del: powr_numeral)
  show "(2::real) powr (- 1022) \<le> 1" "(2::real) powr (- 1026) \<le> 1"
    "(2::real) powr (- 1022) * (4 * 2 ^ 1020) = 1"
    "(2::real) powr (- 1026) * (4 * 2 ^ 1024) = 1"
    unfolding a b by simp_all
qed

lemma parseTransactionValue_struct:
  assumes "BigInt value = Some v" and "0 \<le> v"
    and "pow10 decimals = Finite (of_int D)" and "0 < D"
  shows "parseTransactionValue pow10 value decimals =
           fadd (Number_of_BigInt (v div D)) (fdiv (Number_of_BigInt (v mod D)) (Number_of_BigInt D))"
  using assms(1,4) BigInt_of_number_int[of D] bigint_div_rem_nonneg[OF assms(2,4)]
  by (simp add: parseTransactionValue_def Let_def assms(3))

lemma parseTransactionValue_no_divisor:
  assumes "pow10 decimals = PlusInfinity \<or> (\<exists>y. pow10 decimals = Finite y \<and> 0 \<le> y \<and> y < 1)"
  shows "parseTransactionValue pow10 value decimals = Finite 0"
proof -
  have "BigInt_of_number (pow10 decimals) = None \<or> BigInt_of_number (pow10 decimals) = Some 0"
    using assms
  proof
    assume "pow10 decimals = PlusInfinity"
    then show ?thesis by (simp add: BigInt_of_number_def)
  next
    assume "\<exists>y. pow10 decimals = Finite y \<and> 0 \<le> y \<and> y < 1"
    then obtain y where y: "pow10 decimals = Finite y" "0 \<le> y" "y < 1" by blast
    then have "\<lfloor>y\<rfloor> = 0" by (simp add: floor_eq_iff)
    then show ?thesis using y(1) by (simp add: BigInt_of_number_def)
  qed
  then show ?thesis
    by (auto simp: parseTransactionValue_def split: option.splits)
qed

lemma js_pow10_negative:
  assumes "decimals < 0"
  shows "\<exists>y. js_pow10 decimals = Finite y \<and> 0 \<le> y \<and> y < 1"
proof -
  define x :: real where "x = 10 powr of_int decimals"
  have "decimals \<le> - 1" using assms by simp
  then have "(of_int decimals :: real) \<le> of_int (- 1)" by (simp only: of_int_le_iff)
  then have "(of_int decimals :: real) \<le> - 1" by simp
  then have "(10::real) powr of_int decimals \<le> 10 powr (- 1)" by (intro powr_mono) simp_all
  also have "(10::real) powr (- 1) = 1 / 10" by (simp add: powr_minus_divide)
  finally have x1: "x \<le> 1 / 10" by (simp add: x_def)
  have x0: "0 \<le> x" by (simp add: x_def)
  from round53_small[OF x0 x1] have y: "0 \<le> round53 x" "round53 x < 1" by simp_all
  have "(1::real) \<le> 2 ^ 1024" by simp
  then have td: "toDouble x = Finite (round53 x)"
    using y by (simp add: toDouble_def Let_def)
  show ?thesis unfolding js_pow10_def x_def[symmetric] td using y by simp
qed

lemma js_pow10_overflow:
  assumes "308 < decimals"
  shows "js_pow10 decimals = PlusInfinity"
proof -
  have "309 \<le> decimals" using assms by simp
  then have "(of_int 309 :: real) \<le> of_int decimals" by (simp only: of_int_le_iff)
  then have "(10::real) powr of_int 309 \<le> 10 powr of_int decimals" by (intro powr_mono) simp_all
  moreover have "(10::real) powr of_int 309 = 10 ^ 309" by simp
  moreover have "overflowThreshold \<le> (10::real) ^ 309" by (simp add: overflowThreshold_def)
  ultimately have "overflowThreshold \<le> 10 powr of_int decimals" by linarith
  then show ?thesis unfolding js_pow10_def by (rule toDouble_at_threshold)
qed

lemma divisor_error:
  fixes v Dr P y eps :: real
  assumes "0 \<le> v" and "0 < Dr" and "0 < P" and "eps \<le> 1 / 2"
    and "\<bar>Dr - P\<bar> \<le> eps * P"
    and "\<bar>y - v / Dr\<bar> \<le> (v / Dr) / 2 ^ 47"
  shows "\<bar>y - v / P\<bar> \<le> (1 / 2 ^ 46 + 2 * eps) * (v / P)"
proof -
  define X where "X = v / Dr"
  define X0 where "X0 = v / P"
  have X00: "0 \<le> X0" unfolding X0_def using assms(1,3) by simp
  have Xnn: "0 \<le> X" unfolding X_def using assms(1,2) by simp
  have e0: "0 \<le> eps"
  proof -
    have "0 \<le> eps * P" using assms(5) by linarith
    then show ?thesis using assms(3) by (simp add: zero_le_mult_iff)
  qed
  have "P - Dr \<le> eps * P" using assms(5) by linarith
  moreover have "eps * P \<le> 1 / 2 * P" using assms(3,4) by (intro mult_right_mono) simp_all
  ultimately have DP: "P / 2 \<le> Dr" by linarith
  have X2: "X \<le> 2 * X0"
  proof -
    have "v / Dr \<le> v / (P / 2)" using assms(1,3) DP by (intro divide_left_mono) simp_all
    then show ?thesis by (simp add: X_def X0_def mult.commute)
  qed
  have d: "X - X0 = X * ((P - Dr) / P)"
    unfolding X_def X0_def using assms(2,3) by (simp add: field_simps)
  have "\<bar>(P - Dr) / P\<bar> = \<bar>Dr - P\<bar> / P" using assms(3) by (simp add: abs_minus_commute)
  also have "\<dots> \<le> eps * P / P" using assms(5,3) by (intro divide_right_mono) simp_all
  also have "\<dots> = eps" using assms(3) by simp
  finally have q: "\<bar>(P - Dr) / P\<bar> \<le> eps" .
  have "\<bar>X - X0\<bar> = X * \<bar>(P - Dr) / P\<bar>" unfolding d using Xnn by (simp add: abs_mult)
  also have "\<dots> \<le> X * eps" using q Xnn by (intro mult_left_mono)
  also have "\<dots> \<le> (2 * X0) * eps" using X2 e0 by (intro mult_right_mono)
  finally have a: "\<bar>X - X0\<bar> \<le> 2 * eps * X0" by (simp add: mult_ac)
  have "X / 2 ^ 47 \<le> (2 * X0) / 2 ^ 47" using X2 by (intro divide_right_mono) simp_all
  also have "\<dots> = X0 / 2 ^ 46" by simp
  finally have b: "\<bar>y - X\<bar> \<le> X0 / 2 ^ 46" using assms(6) unfolding X_def[symmetric] by linarith
  have "\<bar>y - X0\<bar> \<le> \<bar>y - X\<bar> + \<bar>X - X0\<bar>" by linarith
  also have "\<dots> \<le> X0 / 2 ^ 46 + 2 * eps * X0" using a b by linarith
  also have "\<dots> = (1 / 2 ^ 46 + 2 * eps) * X0" by (simp add: algebra_simps)
  finally show ?thesis unfolding X0_def .
qed

lemma roundTiesToEven_le: "q \<le> of_int n \<Longrightarrow> roundTiesToEven q \<le> n"
proof -
  assume a: "q \<le> of_int n"
  show ?thesis
  proof (cases "q = of_int n")
    case True
    then show ?thesis by simp
  next
    case False
    then have "q < of_int n" using a by simp
    then have "\<lfloor>q\<rfloor> < n" by (simp add: floor_less_iff)
    moreover have "roundTiesToEven q \<le> \<lfloor>q\<rfloor> + 1"
      by (simp add: roundTiesToEven_def Let_def)
    ultimately show ?thesis by linarith
  qed
qed

lemma round53_integral:
  assumes "2 ^ 53 \<le> x" and "x < overflowThreshold"
  shows "\<exists>D. round53 x = of_int D \<and> 0 < D \<and> round53 (of_int D) = of_int D"
proof -
  have x0: "0 < x"
  proof -
    have "(0::real) < 2 ^ 53" by simp
    then show ?thesis using assms(1) by linarith
  qed
  define f where "f = \<lfloor>log 2 x\<rfloor>"
  note b = floor_log2_bounds[OF x0, folded f_def]
  have "53 \<le> log 2 x" using x0 assms(1) by (simp add: le_log_iff)
  then have f_ge: "53 \<le> f" unfolding f_def by (simp add: le_floor_iff)
  then have f_ge': "- 1022 \<le> f" by simp
  define k where "k = nat (f - 52)"
  have k: "int k = f - 52" using f_ge by (simp add: k_def)
  define p where "p = (2::real) ^ k"
  have pp: "2 powr of_int (f - 52) = p"
    unfolding p_def k[symmetric] by (simp add: powr_realpow)
  have p0: "0 < p" by (simp add: p_def)
  define R where "R = roundTiesToEven (x / p)"
  have r: "round53 x = of_int R * 2 ^ k"
    using round53_binade[OF x0 b f_ge'] unfolding pp R_def p_def .
  have pf: "2 powr of_int f = 2 ^ 52 * p"
  proof -
    have "(2::real) powr of_int f = 2 powr (of_int 52 + of_int (f - 52))" by simp
    also have "\<dots> = 2 powr (of_int 52) * 2 powr (of_int (f - 52))" by (simp only: powr_add)
    also have "\<dots> = 2 powr (of_int 52) * p" by (simp only: pp)
    also have "(2::real) powr (of_int 52) = 2 ^ 52" by simp
    finally show ?thesis .
  qed
  have pf1: "2 powr of_int (f + 1) = 2 ^ 53 * p"
  proof -
    have "f + 1 = 53 + (f - 52)" by simp
    then have "(of_int (f + 1) :: real) = of_int (53 + (f - 52))" by (rule arg_cong)
    then have "(2::real) powr of_int (f + 1) = 2 powr (of_int 53 + of_int (f - 52))"
      by (simp only: of_int_add)
    also have "\<dots> = 2 powr (of_int 53) * 2 powr (of_int (f - 52))" by (simp only: powr_add)
    also have "\<dots> = 2 powr (of_int 53) * p" by (simp only: pp)
    also have "(2::real) powr (of_int 53) = 2 ^ 53" by simp
    finally show ?thesis .
  qed
  have "2 ^ 52 * p \<le> x" using b(1) unfolding pf .
  then have "2 ^ 52 \<le> x / p" using p0 by (simp add: pos_le_divide_eq)
  then have "of_int (2 ^ 52) \<le> x / p" by simp
  then have Rlo: "2 ^ 52 \<le> R" unfolding R_def by (rule roundTiesToEven_ge)
  have "x < 2 ^ 53 * p" using b(2) unfolding pf1 .
  then have "x / p < 2 ^ 53" using p0 by (simp add: pos_divide_less_eq)
  then have "x / p \<le> of_int (2 ^ 53)" by simp
  then have Rhi: "R \<le> 2 ^ 53" unfolding R_def by (rule roundTiesToEven_le)
  have Rpos: "0 < R"
  proof -
    have "(0::int) < 2 ^ 52" by simp
    then show ?thesis using Rlo by linarith
  qed
  define D where "D = R * 2 ^ k"
  have D: "round53 x = of_int D" unfolding r D_def by simp
  have Dpos: "0 < D" unfolding D_def using Rpos by simp
  have "round53 (of_int D) = of_int D"
  proof (cases "R = 2 ^ 53")
    case True
    have "round53 (of_int 1 * 2 ^ (53 + k)) = of_int 1 * 2 ^ (53 + k)"
      by (rule round53_exact) simp
    moreover have "(of_int D :: real) = of_int 1 * 2 ^ (53 + k)"
      unfolding D_def True by (simp add: power_add)
    ultimately show ?thesis by simp
  next
    case False
    then have "R < 2 ^ 53" using Rhi by simp
    then have "\<bar>R\<bar> < 2 ^ 53" using Rpos by simp
    from round53_exact[OF this, of k] show ?thesis unfolding D_def by simp
  qed
  then show ?thesis using D Dpos by blast
qed

lemma js_pow10_integral:
  assumes "0 \<le> decimals" and "decimals \<le> 308"
  shows "\<exists>D. js_pow10 decimals = Finite (of_int D) \<and> 0 < D \<and>
             Number_of_BigInt D = Finite (of_int D) \<and>
             \<bar>of_int D - 10 ^ nat decimals\<bar> \<le> (10::real) ^ nat decimals / 2 ^ 53 \<and>
             (decimals \<le> 22 \<longrightarrow> D = 10 ^ nat decimals)"
proof (cases "decimals \<le> 22")
  case True
  have "js_pow10 decimals = Finite (of_int (10 ^ nat decimals))"
    using js_pow10_exact[OF assms(1) True] by simp
  moreover have "Number_of_BigInt (10 ^ nat decimals) = Finite (of_int (10 ^ nat decimals))"
    using toDouble_pow10[of "nat decimals"] True by (simp add: Number_of_BigInt_def)
  moreover have "(0::int) < 10 ^ nat decimals" by simp
  moreover have "\<bar>of_int (10 ^ nat decimals) - 10 ^ nat decimals\<bar> \<le> (10::real) ^ nat decimals / 2 ^ 53"
    by simp
  ultimately show ?thesis by blast
next
  case False
  define n where "n = nat decimals"
  define x :: real where "x = 10 ^ n"
  have n: "23 \<le> n" "n \<le> 308" using False assms(2) by (simp_all add: n_def)
  have px: "(10::real) powr of_int decimals = x"
    using assms(1) by (simp add: x_def n_def powr_real_of_int)
  have "(10::real) ^ 23 \<le> 10 ^ n" using n(1) by (intro power_increasing) simp_all
  moreover have "(2::real) ^ 53 \<le> 10 ^ 23" by simp
  ultimately have lo: "2 ^ 53 \<le> x" unfolding x_def by linarith
  have "(10::real) ^ n \<le> 10 ^ 308" using n(2) by (intro power_increasing) simp_all
  moreover have "(10::real) ^ 308 < overflowThreshold" by (simp add: overflowThreshold_def)
  ultimately have hi: "x < overflowThreshold" unfolding x_def by linarith
  have x0: "0 \<le> x" by (simp add: x_def)
  from round53_integral[OF lo hi] obtain D where D: "round53 x = of_int D" "0 < D"
    "round53 (of_int D) = of_int D" by blast
  note t = toDouble_below_threshold[OF x0 hi]
  have p: "js_pow10 decimals = Finite (of_int D)"
    unfolding js_pow10_def px using t(1) D(1) by simp
  have "(of_int D :: real) \<le> maxDouble" using t(3) D(1) by simp
  then have "(of_int D :: real) < 2 ^ 1024" using threshold_split(5,6) by linarith
  moreover have "\<not> (of_int D :: real) \<le> - (2 ^ 1024)"
  proof -
    have "(0::real) < of_int D" using D(2) by simp
    moreover have "- (2 ^ 1024) < (0::real)" by simp
    ultimately show ?thesis by linarith
  qed
  ultimately have nd: "Number_of_BigInt D = Finite (of_int D)"
    by (simp add: Number_of_BigInt_def toDouble_def D(3))
  have "(2::real) powr (- 1022) \<le> 1" by (rule powr_low_bounds(1))
  moreover have "(1::real) \<le> 2 ^ 53" by simp
  ultimately have "2 powr (- 1022) \<le> \<bar>x\<bar>" using lo by linarith
  from round53_error[OF this] have "\<bar>of_int D - x\<bar> \<le> x / 2 ^ 53"
    using x0 D(1) by simp
  then have e: "\<bar>of_int D - 10 ^ nat decimals\<bar> \<le> (10::real) ^ nat decimals / 2 ^ 53"
    by (simp add: x_def n_def)
  show ?thesis using p D(2) nd e False by blast
qed

lemma toDouble_one: "toDouble 1 = Finite 1"
  using round53_exact[of 1 0] power_increasing[of 0 1024 "2::real"]
  by (simp add: toDouble_def)

lemma toDouble_zero: "toDouble 0 = Finite 0"
  by (simp add: toDouble_def round53_def)

text \<open>
  C4 (corrected). Let \<open>BigInt(value)\<close> be a non-negative integer \<open>v\<close> and let the
  engine's \<open>10 ** decimals\<close> be a double with a positive integer value \<open>D\<close>. The
  function computes the exact quotient and remainder of \<open>v\<close> by \<open>D\<close> over BigInt and
  returns \<open>Number(quotient) + Number(remainder) / Number(D)\<close>. If \<open>v / D\<close> is below
  \<open>2^1024 - 2^970\<close>, this double is finite and differs from \<open>v / D\<close> by at most
  \<open>2^-47\<close> of it (\<open>2^-51\<close> when \<open>D \<le> 2^1020\<close>), also when \<open>v\<close> exceeds \<open>2^53\<close>;
  hence, when \<open>D\<close> is within a relative error \<open>eps \<le> 1/2\<close> of \<open>10^decimals\<close>, it
  differs from \<open>v / 10^decimals\<close> by at most \<open>2^-46 + 2 eps\<close> of it. From
  \<open>v / D = 2^1024 - 2^970\<close> on the result is \<open>Infinity\<close>. The correctly rounded power
  is such a \<open>D\<close> for \<open>0 \<le> decimals \<le> 308\<close>, within \<open>2^-53\<close> of \<open>10^decimals\<close> and
  equal to it up to \<open>decimals = 22\<close>; for a negative \<open>decimals\<close> it lies in \<open>[0, 1)\<close>,
  from \<open>decimals = 309\<close> on it is \<open>Infinity\<close>, and in both cases the function returns
  \<open>0\<close> whatever the value.
\<close>

theorem parseTransactionValue_accuracy:
  assumes "BigInt value = Some v" and "0 \<le> v"
    and "pow10 decimals = Finite (of_int D)" and "0 < D"
    and "Number_of_BigInt D = Finite (of_int D)"
  shows "parseTransactionValue pow10 value decimals =
           fadd (Number_of_BigInt (v div D))
                (fdiv (Number_of_BigInt (v mod D)) (Number_of_BigInt D)) \<and>
         (of_int v / of_int D < overflowThreshold \<longrightarrow>
            (\<exists>y. parseTransactionValue pow10 value decimals = Finite y \<and>
                 \<bar>y - of_int v / of_int D\<bar> \<le> (of_int v / of_int D) / 2 ^ 47 \<and>
                 (of_int D \<le> (2::real) ^ 1020 \<longrightarrow>
                    \<bar>y - of_int v / of_int D\<bar> \<le> (of_int v / of_int D) / 2 ^ 51) \<and>
                 (\<forall>eps. 0 \<le> decimals \<and> eps \<le> 1 / 2 \<and>
                        \<bar>of_int D - 10 ^ nat decimals\<bar> \<le> eps * 10 ^ nat decimals \<longrightarrow>
                        \<bar>y - of_int v / 10 ^ nat decimals\<bar>
                          \<le> (1 / 2 ^ 46 + 2 * eps) * (of_int v / 10 ^ nat decimals)))) \<and>
         (overflowThreshold \<le> of_int v / of_int D \<longrightarrow>
            parseTransactionValue pow10 value decimals = PlusInfinity) \<and>
         (\<forall>value' decimals'. decimals' < 0 \<or> 308 < decimals' \<longrightarrow>
            parseTransactionValue js_pow10 value' decimals' = Finite 0) \<and>
         (\<forall>decimals'. 0 \<le> decimals' \<and> decimals' \<le> 308 \<longrightarrow>
            (\<exists>D'. js_pow10 decimals' = Finite (of_int D') \<and> 0 < D' \<and>
                  Number_of_BigInt D' = Finite (of_int D') \<and>
                  \<bar>of_int D' - 10 ^ nat decimals'\<bar> \<le> (10::real) ^ nat decimals' / 2 ^ 53 \<and>
                  (decimals' \<le> 22 \<longrightarrow> D' = 10 ^ nat decimals')))"
proof -
  define q where "q = v div D"
  define r where "r = v mod D"
  define X :: real where "X = of_int v / of_int D"
  have DrPos: "(0::real) < of_int D" using assms(4) by simp
  have dbl: "toDouble (of_int D) = Finite (of_int D)"
    using assms(5) by (simp add: Number_of_BigInt_def)
  have Dlt: "(of_int D :: real) < overflowThreshold" by (rule double_below_threshold[OF dbl])
  have struct: "parseTransactionValue pow10 value decimals =
      fadd (Number_of_BigInt q) (fdiv (Number_of_BigInt r) (Number_of_BigInt D))"
    unfolding q_def r_def
    by (rule parseTransactionValue_struct[of "value" v pow10 decimals D, OF assms(1-4)])
  have q0: "0 \<le> q" using assms(2,4) by (simp add: q_def pos_imp_zdiv_nonneg_iff)
  have r0: "0 \<le> r" "r < D" using assms(4) by (simp_all add: r_def)
  have "v = q * D + r" by (simp add: q_def r_def)
  then have "(of_int v :: real) = of_int (q * D + r)" by (rule arg_cong)
  then have vqr: "(of_int v :: real) = of_int q * of_int D + of_int r"
    by (simp only: of_int_add of_int_mult)
  have X: "X = of_int q + of_int r / of_int D"
    unfolding X_def vqr using DrPos by (simp add: field_simps)
  have X0: "0 \<le> X" unfolding X_def using assms(2) DrPos by simp
  have qX: "of_int q \<le> X"
  proof -
    have "0 \<le> of_int r / (of_int D :: real)" using r0(1) DrPos by simp
    then show ?thesis unfolding X by simp
  qed
  \<comment> \<open>no overflow\<close>
  have fin: "\<exists>y. parseTransactionValue pow10 value decimals = Finite y \<and>
                 \<bar>y - X\<bar> \<le> X / 2 ^ 47 \<and>
                 (of_int D \<le> (2::real) ^ 1020 \<longrightarrow> \<bar>y - X\<bar> \<le> X / 2 ^ 51) \<and>
                 (\<forall>eps. 0 \<le> decimals \<and> eps \<le> 1 / 2 \<and>
                        \<bar>of_int D - 10 ^ nat decimals\<bar> \<le> eps * 10 ^ nat decimals \<longrightarrow>
                        \<bar>y - of_int v / 10 ^ nat decimals\<bar>
                          \<le> (1 / 2 ^ 46 + 2 * eps) * (of_int v / 10 ^ nat decimals))"
    if lt: "X < overflowThreshold"
  proof -
    have qlt: "of_int q < overflowThreshold" using qX lt by linarith
    have D24: "(of_int D :: real) \<le> 2 ^ 1024" using Dlt threshold_split(5) by linarith
    have u2: "(0::real) \<le> 1 / 2 ^ 49" "(1::real) / 2 ^ 49 \<le> 1 / 4" by simp_all
    have lo2: "(2::real) powr (- 1026) * (4 * of_int D) \<le> 1"
    proof -
      have "(2::real) powr (- 1026) * (4 * of_int D) \<le> 2 powr (- 1026) * (4 * 2 ^ 1024)"
        using D24 by (intro mult_left_mono) simp_all
      then show ?thesis unfolding powr_low_bounds(4) .
    qed
    from recombine_double[OF u2 round53_error_subnormal powr_low_bounds(2) lo2 assms(4) dbl q0 qlt r0]
    obtain s where s: "fadd (Number_of_BigInt q) (fdiv (Number_of_BigInt r) (Number_of_BigInt D)) = Finite s"
      "\<bar>s - X\<bar> \<le> 4 * (1 / 2 ^ 49) * X"
      unfolding X by blast
    have res: "parseTransactionValue pow10 value decimals = Finite s" unfolding struct s(1) ..
    have g: "\<bar>s - X\<bar> \<le> X / 2 ^ 47" using s(2) by simp
    have n: "\<bar>s - X\<bar> \<le> X / 2 ^ 51" if D20: "of_int D \<le> (2::real) ^ 1020"
    proof -
      have u1: "(0::real) \<le> 1 / 2 ^ 53" "(1::real) / 2 ^ 53 \<le> 1 / 4" by simp_all
      have lo1: "(2::real) powr (- 1022) * (4 * of_int D) \<le> 1"
      proof -
        have "(2::real) powr (- 1022) * (4 * of_int D) \<le> 2 powr (- 1022) * (4 * 2 ^ 1020)"
          using D20 by (intro mult_left_mono) simp_all
        then show ?thesis unfolding powr_low_bounds(3) .
      qed
      from recombine_double[OF u1 round53_error_normal powr_low_bounds(1) lo1 assms(4) dbl q0 qlt r0]
      obtain s' where s': "fadd (Number_of_BigInt q) (fdiv (Number_of_BigInt r) (Number_of_BigInt D)) = Finite s'"
        "\<bar>s' - X\<bar> \<le> 4 * (1 / 2 ^ 53) * X"
        unfolding X by blast
      have "s' = s" using s(1) s'(1) by simp
      then show ?thesis using s'(2) by simp
    qed
    have e: "\<bar>s - of_int v / 10 ^ nat decimals\<bar>
               \<le> (1 / 2 ^ 46 + 2 * eps) * (of_int v / 10 ^ nat decimals)"
      if "eps \<le> 1 / 2" "\<bar>of_int D - 10 ^ nat decimals\<bar> \<le> eps * 10 ^ nat decimals" for eps :: real
    proof -
      have v0: "(0::real) \<le> of_int v" using assms(2) by simp
      have P0: "(0::real) < 10 ^ nat decimals" by simp
      show ?thesis
        by (rule divisor_error[OF v0 DrPos P0 that(1) that(2) g[unfolded X_def]])
    qed
    show ?thesis using res g n e by blast
  qed
  \<comment> \<open>overflow\<close>
  have inf: "parseTransactionValue pow10 value decimals = PlusInfinity"
    if ge: "overflowThreshold \<le> X"
  proof -
    define Ti :: int where "Ti = 2 ^ 1024 - 2 ^ 970"
    have Tr: "overflowThreshold = of_int Ti" by (simp add: Ti_def overflowThreshold_def)
    have "of_int Ti * of_int D \<le> (of_int v :: real)"
      using ge DrPos unfolding X_def Tr by (simp add: pos_le_divide_eq)
    then have "(of_int (Ti * D) :: real) \<le> of_int v" by simp
    then have "Ti * D \<le> v" by (simp only: of_int_le_iff)
    then have "(Ti * D) div D \<le> v div D" using assms(4) by (intro zdiv_mono1) simp_all
    then have "Ti \<le> q" using assms(4) by (simp add: q_def)
    then have "(of_int Ti :: real) \<le> of_int q" by (simp only: of_int_le_iff)
    then have "overflowThreshold \<le> of_int q" unfolding Tr .
    from toDouble_at_threshold[OF this] have Nq: "Number_of_BigInt q = PlusInfinity"
      by (simp add: Number_of_BigInt_def)
    from remainder_part_finite[OF assms(4) dbl r0]
    obtain t where t: "fdiv (Number_of_BigInt r) (Number_of_BigInt D) = Finite t" by blast
    show ?thesis unfolding struct Nq t by simp
  qed
  have zero: "parseTransactionValue js_pow10 value' decimals' = Finite 0"
    if "decimals' < 0 \<or> 308 < decimals'" for value' decimals'
    using that js_pow10_negative[of decimals'] js_pow10_overflow[of decimals']
      parseTransactionValue_no_divisor[of js_pow10 decimals' value'] by blast
  have c1: "parseTransactionValue pow10 value decimals =
           fadd (Number_of_BigInt (v div D))
                (fdiv (Number_of_BigInt (v mod D)) (Number_of_BigInt D))"
    using struct by (simp add: q_def r_def)
  have c2: "of_int v / of_int D < overflowThreshold \<longrightarrow>
            (\<exists>y. parseTransactionValue pow10 value decimals = Finite y \<and>
                 \<bar>y - of_int v / of_int D\<bar> \<le> (of_int v / of_int D) / 2 ^ 47 \<and>
                 (of_int D \<le> (2::real) ^ 1020 \<longrightarrow>
                    \<bar>y - of_int v / of_int D\<bar> \<le> (of_int v / of_int D) / 2 ^ 51) \<and>
                 (\<forall>eps. 0 \<le> decimals \<and> eps \<le> 1 / 2 \<and>
                        \<bar>of_int D - 10 ^ nat decimals\<bar> \<le> eps * 10 ^ nat decimals \<longrightarrow>
                        \<bar>y - of_int v / 10 ^ nat decimals\<bar>
                          \<le> (1 / 2 ^ 46 + 2 * eps) * (of_int v / 10 ^ nat decimals)))"
    using fin unfolding X_def by blast
  have c3: "overflowThreshold \<le> of_int v / of_int D \<longrightarrow>
            parseTransactionValue pow10 value decimals = PlusInfinity"
    using inf unfolding X_def by blast
  have c4: "\<forall>value' decimals'. decimals' < 0 \<or> 308 < decimals' \<longrightarrow>
            parseTransactionValue js_pow10 value' decimals' = Finite 0"
    using zero by blast
  have c5: "\<forall>decimals'. 0 \<le> decimals' \<and> decimals' \<le> 308 \<longrightarrow>
            (\<exists>D'. js_pow10 decimals' = Finite (of_int D') \<and> 0 < D' \<and>
                  Number_of_BigInt D' = Finite (of_int D') \<and>
                  \<bar>of_int D' - 10 ^ nat decimals'\<bar> \<le> (10::real) ^ nat decimals' / 2 ^ 53 \<and>
                  (decimals' \<le> 22 \<longrightarrow> D' = 10 ^ nat decimals'))"
    using js_pow10_integral by blast
  show ?thesis by (intro conjI c1 c2 c3 c4 c5)
qed

theorem parseTransactionValue_accuracy_witness:
  "parseTransactionValue js_pow10 ''1000000'' 6 = Finite 1 \<and>
   (\<exists>y. parseTransactionValue js_pow10 ''123456789012345678901234567890'' 18 = Finite y \<and>
        \<bar>y - 123456789012345678901234567890 / 10 ^ 18\<bar>
          \<le> (123456789012345678901234567890 / 10 ^ 18) / 2 ^ 51) \<and>
   (\<exists>y. parseTransactionValue pow10_below_26 ''123456789012345678901234567890'' 26 = Finite y \<and>
        \<bar>y - 123456789012345678901234567890 / 10 ^ 26\<bar>
          \<le> (1 / 2 ^ 46 + 2 * (1 / 2 ^ 52)) * (123456789012345678901234567890 / 10 ^ 26)) \<and>
   parseTransactionValue js_pow10 threshold_digits 0 = PlusInfinity \<and>
   parseTransactionValue js_pow10 ''99999999999999991611392'' 23 = Finite 1 \<and>
   parseTransactionValue js_pow10 ''1000000'' (- 6) = Finite 0 \<and>
   parseTransactionValue js_pow10 ''1000000'' 309 = Finite 0 \<and>
   js_pow10 6 = Finite 1000000"
proof -
  have b1: "BigInt ''1000000'' = Some 1000000" by code_simp
  have b2: "BigInt ''123456789012345678901234567890'' = Some 123456789012345678901234567890"
    by code_simp
  have b3: "BigInt threshold_digits = Some (2 ^ 1024 - 2 ^ 970)" by code_simp
  have p6: "js_pow10 6 = Finite (of_int 1000000)" using js_pow10_exact[of 6] by simp
  have p18: "js_pow10 18 = Finite (of_int 1000000000000000000)" using js_pow10_exact[of 18] by simp
  have p26: "pow10_below_26 26 = Finite (of_int 99999999999999987584860160)"
    by (simp add: pow10_below_26_def)
  have p0: "js_pow10 0 = Finite (of_int 1)" using js_pow10_exact[of 0] by simp
  have n6: "Number_of_BigInt 1000000 = Finite (of_int 1000000)"
    using toDouble_pow10[of 6] by (simp add: Number_of_BigInt_def)
  have n18: "Number_of_BigInt 1000000000000000000 = Finite (of_int 1000000000000000000)"
    using toDouble_pow10[of 18] by (simp add: Number_of_BigInt_def)
  have n26: "Number_of_BigInt 99999999999999987584860160 = Finite (of_int 99999999999999987584860160)"
  proof -
    have "round53 (of_int 5820766091346740 * 2 ^ 34) = of_int 5820766091346740 * 2 ^ 34"
      by (rule round53_exact) simp
    then have "round53 99999999999999987584860160 = 99999999999999987584860160" by simp
    then show ?thesis by (simp add: Number_of_BigInt_def toDouble_def)
  qed
  have n1: "Number_of_BigInt 1 = Finite (of_int 1)"
    by (simp add: Number_of_BigInt_def toDouble_one)
  have z: "(0::int) \<le> 1000000" "(0::int) < 1000000"
    "(0::int) \<le> 123456789012345678901234567890" "(0::int) < 1000000000000000000"
    "(0::int) < 99999999999999987584860160" "(0::int) \<le> 2 ^ 1024 - 2 ^ 970" "(0::int) < 1"
    by simp_all
  note t1 = parseTransactionValue_accuracy[of "''1000000''" 1000000 js_pow10 6 1000000,
      OF b1 z(1) p6 z(2) n6]
  note t2 = parseTransactionValue_accuracy[of "''123456789012345678901234567890''"
      123456789012345678901234567890 js_pow10 18 1000000000000000000, OF b2 z(3) p18 z(4) n18]
  note t3 = parseTransactionValue_accuracy[of "''123456789012345678901234567890''"
      123456789012345678901234567890 pow10_below_26 26 99999999999999987584860160, OF b2 z(3) p26 z(5) n26]
  note t4 = parseTransactionValue_accuracy[of "threshold_digits" "2 ^ 1024 - 2 ^ 970" js_pow10 0 1,
      OF b3 z(6) p0 z(7) n1]
  have a: "parseTransactionValue js_pow10 ''1000000'' 6 = Finite 1"
  proof -
    from t1[THEN conjunct1] have "parseTransactionValue js_pow10 ''1000000'' 6 =
      fadd (Number_of_BigInt (1000000 div 1000000))
           (fdiv (Number_of_BigInt (1000000 mod 1000000)) (Number_of_BigInt 1000000))" .
    then show ?thesis
      using toDouble_pow10[of 6] by (simp add: Number_of_BigInt_def toDouble_one toDouble_zero)
  qed
  have b: "\<exists>y. parseTransactionValue js_pow10 ''123456789012345678901234567890'' 18 = Finite y \<and>
        \<bar>y - 123456789012345678901234567890 / 10 ^ 18\<bar>
          \<le> (123456789012345678901234567890 / 10 ^ 18) / 2 ^ 51"
  proof -
    have lt: "of_int 123456789012345678901234567890 / of_int 1000000000000000000 < overflowThreshold"
      by (simp add: overflowThreshold_def)
    have small: "of_int 1000000000000000000 \<le> (2::real) ^ 1020" by simp
    from t2[THEN conjunct2, THEN conjunct1, THEN mp, OF lt] small obtain y where
      "parseTransactionValue js_pow10 ''123456789012345678901234567890'' 18 = Finite y"
      "\<bar>y - of_int 123456789012345678901234567890 / of_int 1000000000000000000\<bar>
          \<le> (of_int 123456789012345678901234567890 / of_int 1000000000000000000) / 2 ^ 51"
      by blast
    then show ?thesis by (intro exI[of _ y]) simp
  qed
  have c: "\<exists>y. parseTransactionValue pow10_below_26 ''123456789012345678901234567890'' 26 = Finite y \<and>
        \<bar>y - 123456789012345678901234567890 / 10 ^ 26\<bar>
          \<le> (1 / 2 ^ 46 + 2 * (1 / 2 ^ 52)) * (123456789012345678901234567890 / 10 ^ 26)"
  proof -
    have lt: "of_int 123456789012345678901234567890 / of_int 99999999999999987584860160 < overflowThreshold"
      by (simp add: overflowThreshold_def)
    have e: "(0::int) \<le> 26 \<and> (1 / 2 ^ 52 :: real) \<le> 1 / 2 \<and>
        \<bar>of_int 99999999999999987584860160 - 10 ^ nat 26\<bar> \<le> 1 / 2 ^ 52 * (10 ^ nat 26 :: real)"
      by simp
    from t3[THEN conjunct2, THEN conjunct1, THEN mp, OF lt] obtain y where y:
      "parseTransactionValue pow10_below_26 ''123456789012345678901234567890'' 26 = Finite y"
      "\<forall>eps. (0::int) \<le> 26 \<and> eps \<le> 1 / 2 \<and>
          \<bar>of_int 99999999999999987584860160 - 10 ^ nat 26\<bar> \<le> eps * (10 ^ nat 26 :: real) \<longrightarrow>
          \<bar>y - of_int 123456789012345678901234567890 / 10 ^ nat 26\<bar>
            \<le> (1 / 2 ^ 46 + 2 * eps) * (of_int 123456789012345678901234567890 / 10 ^ nat 26)"
      by blast
    from y(2) e have "\<bar>y - of_int 123456789012345678901234567890 / 10 ^ nat 26\<bar>
            \<le> (1 / 2 ^ 46 + 2 * (1 / 2 ^ 52)) * (of_int 123456789012345678901234567890 / 10 ^ nat 26)"
      by blast
    then show ?thesis using y(1) by (intro exI[of _ y]) simp
  qed
  have d: "parseTransactionValue js_pow10 threshold_digits 0 = PlusInfinity"
  proof -
    have ge: "overflowThreshold \<le> of_int (2 ^ 1024 - 2 ^ 970) / of_int 1"
      by (simp add: overflowThreshold_def)
    from t4[THEN conjunct2, THEN conjunct2, THEN conjunct1, THEN mp, OF ge] show ?thesis .
  qed
  note zr = t1[THEN conjunct2, THEN conjunct2, THEN conjunct2, THEN conjunct1, rule_format]
  have e: "parseTransactionValue js_pow10 ''1000000'' (- 6) = Finite 0"
    by (rule zr) simp
  have f: "parseTransactionValue js_pow10 ''1000000'' 309 = Finite 0"
    by (rule zr) simp
  have h: "parseTransactionValue js_pow10 ''99999999999999991611392'' 23 = Finite 1"
  proof -
    have b4: "BigInt ''99999999999999991611392'' = Some 99999999999999991611392" by code_simp
    have z4: "(0::int) \<le> 99999999999999991611392" "(0::int) < 99999999999999991611392"
      by simp_all
    have p23: "js_pow10 23 = Finite (of_int 99999999999999991611392)"
      using js_pow10_23_value by simp
    have r23: "round53 (of_int 5960464477539062 * 2 ^ 24) = of_int 5960464477539062 * 2 ^ 24"
      by (rule round53_exact) simp
    then have "round53 99999999999999991611392 = 99999999999999991611392" by simp
    then have n23: "Number_of_BigInt 99999999999999991611392
        = Finite (of_int 99999999999999991611392)"
      by (simp add: Number_of_BigInt_def toDouble_def)
    note t5 = parseTransactionValue_accuracy[of "''99999999999999991611392''"
        99999999999999991611392 js_pow10 23 99999999999999991611392, OF b4 z4(1) p23 z4(2) n23]
    from t5[THEN conjunct1] have "parseTransactionValue js_pow10 ''99999999999999991611392'' 23 =
      fadd (Number_of_BigInt (99999999999999991611392 div 99999999999999991611392))
           (fdiv (Number_of_BigInt (99999999999999991611392 mod 99999999999999991611392))
                 (Number_of_BigInt 99999999999999991611392))" .
    then show ?thesis
      using n23 by (simp add: Number_of_BigInt_def toDouble_one toDouble_zero)
  qed
  have g: "js_pow10 6 = Finite 1000000"
  proof -
    have "(0::int) \<le> 6 \<and> (6::int) \<le> 308" by simp
    with t1[THEN conjunct2, THEN conjunct2, THEN conjunct2, THEN conjunct2] obtain D' where
      "js_pow10 6 = Finite (of_int D')" "(6::int) \<le> 22 \<longrightarrow> D' = 10 ^ nat 6"
      by blast
    then show ?thesis by simp
  qed
  show ?thesis by (intro conjI a b c d h e f g)
qed

text \<open>The claim as stated fails at four inputs. For \<open>decimals = -1\<close> the power
  \<open>10 ** -1\<close> is not an integer, \<open>BigInt\<close> raises, and the function returns \<open>0\<close> where
  \<open>value / 10^decimals\<close> is 50. For \<open>value = 2^1024 - 2^970\<close> and \<open>decimals = 0\<close> the
  quotient converts to \<open>Infinity\<close>. For \<open>value = 10^309\<close> and \<open>decimals = 309\<close> the
  power is \<open>Infinity\<close>, \<open>BigInt\<close> raises, and the function returns \<open>0\<close> where
  \<open>value / 10^decimals\<close> is 1. For \<open>decimals = 23\<close> the divisor is the double nearest to
  the power, \<open>99999999999999991611392\<close>, and not \<open>10^23\<close>.\<close>

theorem parseTransactionValue_accuracy_counterexample:
  "BigInt ''5'' = Some 5 \<and>
   parseTransactionValue js_pow10 ''5'' (- 1) = Finite 0 \<and> (5::real) / 10 powr (- 1) = 50 \<and>
   BigInt threshold_digits = Some (2 ^ 1024 - 2 ^ 970) \<and>
   parseTransactionValue js_pow10 threshold_digits 0 = PlusInfinity \<and>
   BigInt pow309_digits = Some (10 ^ 309) \<and>
   parseTransactionValue js_pow10 pow309_digits 309 = Finite 0 \<and>
   BigInt_of_number (js_pow10 23) = Some 99999999999999991611392"
proof -
  have b5: "BigInt ''5'' = Some 5" by code_simp
  have b3: "BigInt threshold_digits = Some (2 ^ 1024 - 2 ^ 970)" by code_simp
  have a: "parseTransactionValue js_pow10 ''5'' (- 1) = Finite 0"
    by (rule parseTransactionValue_no_divisor) (simp add: js_pow10_negative)
  have b: "(5::real) / 10 powr (- 1) = 50" by (simp add: powr_minus_divide)
  have c: "parseTransactionValue js_pow10 threshold_digits 0 = PlusInfinity"
  proof -
    have p0: "js_pow10 0 = Finite (of_int 1)" using js_pow10_exact[of 0] by simp
    have s: "parseTransactionValue js_pow10 threshold_digits 0 =
        fadd (Number_of_BigInt ((2 ^ 1024 - 2 ^ 970) div 1))
             (fdiv (Number_of_BigInt ((2 ^ 1024 - 2 ^ 970) mod 1)) (Number_of_BigInt 1))"
      by (rule parseTransactionValue_struct[of _ _ js_pow10 0 1, OF b3 _ p0]) simp_all
    have "overflowThreshold \<le> of_int (2 ^ 1024 - 2 ^ 970)" by (simp add: overflowThreshold_def)
    from toDouble_at_threshold[OF this]
    have q: "Number_of_BigInt (2 ^ 1024 - 2 ^ 970) = PlusInfinity"
      by (simp add: Number_of_BigInt_def)
    have r: "fdiv (Number_of_BigInt 0) (Number_of_BigInt 1) = Finite 0"
      by (simp add: Number_of_BigInt_def toDouble_one toDouble_zero)
    show ?thesis unfolding s using q r by simp
  qed
  have d: "parseTransactionValue js_pow10 pow309_digits 309 = Finite 0"
    by (rule parseTransactionValue_no_divisor) (simp add: js_pow10_overflow)
  have e: "BigInt pow309_digits = Some (10 ^ 309)" by code_simp
  show ?thesis by (intro conjI b5 a b b3 c e d js_pow10_23)
qed

end
